theory Spec2Isabelle
  imports Complex_Main
begin

section \<open>Paired patch extraction and the CARE dataset (01 CARE, care solution notebook)\<close>

text \<open>
  The notebook cell \<^verbatim>\<open>create_patches\<close> cuts random, paired patches out of two numpy
  stacks, and the class \<^verbatim>\<open>CAREDataset\<close> serves them by index. This theory embeds
  both, together with the numpy operations they call, and proves the properties the
  specification states about them.

  Conventions of the embedding:
  \<^item> a numpy array is its shape, its dtype and its buffer in row-major order;
  \<^item> pixel values are real numbers: the rounding of a cast to 32-bit floats is a
    parameter \<open>f32\<close> of the functions that cast, every other operation is exact;
  \<^item> shapes, patch sizes and offsets are lists of natural numbers, one entry per axis (a
    patch size is a tuple of non-negative integers);
  \<^item> every Python exception is a value \<open>Inl e\<close>;
  \<^item> the random generator is a state: an unknown sequence of raw draws and a cursor
    into it. A function that draws returns the generator it leaves behind, also when
    it raises.
\<close>

subsection \<open>numpy arrays\<close>

datatype dtype = Int64 | Float32 | Float64

record ndarray =
  shape :: "nat list"
  dtype :: dtype
  data :: "real list"

datatype value_error =
  LowGtHigh   \<comment> \<open>\<^verbatim>\<open>Generator.integers\<close>: low > high\<close>
| NoArrays    \<comment> \<open>\<^verbatim>\<open>np.stack\<close>: need at least one array to stack\<close>
| ShapeMismatch \<comment> \<open>\<^verbatim>\<open>np.stack\<close>: all input arrays must have the same shape\<close>

datatype error =
  IndexError
| ValueError value_error
| DegenerateStatisticsError

text \<open>A numpy array always holds as many values as its shape says.\<close>

definition wf_array :: "ndarray \<Rightarrow> bool" where
  "wf_array a = (length (data a) = prod_list (shape a))"

text \<open>The type two arrays of these dtypes promote to (\<^verbatim>\<open>np.result_type\<close>).\<close>

definition result_type :: "dtype \<Rightarrow> dtype \<Rightarrow> dtype" where
  "result_type s t = (if s = t then s else Float64)"

text \<open>
  \<^verbatim>\<open>a[i]\<close> for a Python integer \<open>i\<close>: the \<open>i\<close>-th entry along the first axis. A negative
  index counts from the end; an index out of range, or any index into an array with
  no axis, raises IndexError. \<open>sample_at\<close> is the entry itself, for an index in range.
\<close>

definition sample_at :: "ndarray \<Rightarrow> nat \<Rightarrow> ndarray" where
  "sample_at a s =
     (let m = prod_list (tl (shape a))
      in \<lparr>shape = tl (shape a), dtype = dtype a, data = take m (drop (s * m) (data a))\<rparr>)"

definition nd_index :: "ndarray \<Rightarrow> int \<Rightarrow> error + ndarray" where
  "nd_index a i =
     (case shape a of
        [] \<Rightarrow> Inl IndexError
      | n # _ \<Rightarrow>
          (let j = (if i < 0 then i + int n else i)
           in if 0 \<le> j \<and> j < int n then Inr (sample_at a (nat j)) else Inl IndexError))"

text \<open>All multi-indices of a shape in row-major order, and the buffer position of one.\<close>

fun indices :: "nat list \<Rightarrow> nat list list" where
  "indices [] = [[]]"
| "indices (d # ds) = concat (map (\<lambda>i. map ((#) i) (indices ds)) [0..<d])"

fun ravel :: "nat list \<Rightarrow> nat list \<Rightarrow> nat" where
  "ravel (d # ds) (i # js) = i * prod_list ds + ravel ds js"
| "ravel _ _ = 0"

text \<open>
  \<^verbatim>\<open>a[(..., slice(c0, c0 + p0), ..., slice(ck, ck + pk))]\<close>: the slices apply to the last
  axes of \<open>a\<close>, the ellipsis keeps the axes before them whole. numpy clips a slice to
  the axis, so a slice that starts or ends beyond it is shorter than \<open>p\<close>, possibly
  empty. More slices than axes raise IndexError.
\<close>

definition crop_arr :: "ndarray \<Rightarrow> nat list \<Rightarrow> nat list \<Rightarrow> ndarray" where
  "crop_arr a cs ps =
     (let shp = shape a;
          r = length shp - length cs;
          trail = drop r shp;
          starts = map2 min cs trail;
          stops = map2 min (map2 (+) cs ps) trail;
          new = take r shp @ map2 (-) stops starts;
          offs = replicate r 0 @ starts
      in \<lparr>shape = new, dtype = dtype a,
          data = map (\<lambda>idx. data a ! ravel shp (map2 (+) offs idx)) (indices new)\<rparr>)"

definition crop :: "ndarray \<Rightarrow> nat list \<Rightarrow> nat list \<Rightarrow> error + ndarray" where
  "crop a cs ps =
     (if length (shape a) < length cs then Inl IndexError else Inr (crop_arr a cs ps))"

text \<open>\<^verbatim>\<open>a.astype(t)\<close>, with the rounding of the values as a parameter.\<close>

definition astype :: "(real \<Rightarrow> real) \<Rightarrow> dtype \<Rightarrow> ndarray \<Rightarrow> ndarray" where
  "astype rnd t a = \<lparr>shape = shape a, dtype = t, data = map rnd (data a)\<rparr>"

text \<open>\<^verbatim>\<open>a[np.newaxis]\<close>: a leading axis of size 1.\<close>

definition newaxis :: "ndarray \<Rightarrow> ndarray" where
  "newaxis a = a\<lparr>shape := 1 # shape a\<rparr>"

text \<open>
  \<^verbatim>\<open>np.stack(xs)\<close>: raises ValueError on an empty list and on arrays of different
  shapes; otherwise the arrays become the entries along a new first axis.
\<close>

definition np_stack :: "ndarray list \<Rightarrow> error + ndarray" where
  "np_stack xs =
     (case xs of
        [] \<Rightarrow> Inl (ValueError NoArrays)
      | x # ys \<Rightarrow>
          if list_all (\<lambda>y. shape y = shape x) ys
          then Inr \<lparr>shape = length xs # shape x,
                    dtype = foldl result_type (dtype x) (map dtype ys),
                    data = concat (map data xs)\<rparr>
          else Inl (ValueError ShapeMismatch))"

subsection \<open>The random generator\<close>

record generator =
  draws :: "nat \<Rightarrow> nat"
  cursor :: nat

text \<open>
  \<^verbatim>\<open>rng.integers(low, high, endpoint=True)\<close>: an integer of the closed interval
  \<open>[low, high]\<close>, any of them depending on the raw draw; ValueError when the interval
  is empty, and then nothing is drawn.
\<close>

definition integers :: "generator \<Rightarrow> int \<Rightarrow> int \<Rightarrow> (error + int) \<times> generator" where
  "integers g low high =
     (if high < low then (Inl (ValueError LowGtHigh), g)
      else (Inr (low + int (draws g (cursor g) mod nat (high - low + 1))),
            g\<lparr>cursor := Suc (cursor g)\<rparr>))"

subsection \<open>create patches\<close>

text \<open>
  \<^verbatim>\<open>np.ceil(np.prod(sample.shape) / np.prod(patch_size)).astype(int)\<close>, which never
  raises.
  \<^item> \<^verbatim>\<open>np.prod\<close> multiplies in int64, which wraps around from \<open>2^63\<close> on. The products of the
    model are exact: it follows the code for volumes below \<open>2^63\<close>. The volume of a numpy
    array always is; a statement that depends on the count for a patch size that does not
    fit into the sample bounds the patch volume.
  \<^item> The division is a division of 64-bit floats, taken exact here: for volumes below
    \<open>2^53\<close> the rounded quotient has the ceiling of the exact one.
  \<^item> By zero the division gives inf or NaN. numpy casts them to the least int64 (on
    x86-64; it leaves this cast to the platform), so that the \<^verbatim>\<open>range\<close> of the loop is
    empty: the count is 0.
\<close>

definition n_patches :: "nat list \<Rightarrow> nat list \<Rightarrow> error + nat" where
  "n_patches shp ps =
     (if prod_list ps = 0 then Inr 0
      else Inr (nat \<lceil>real (prod_list shp) / real (prod_list ps)\<rceil>))"

text \<open>
  The list comprehension that draws \<^verbatim>\<open>crop_coords\<close>: iteration \<open>i\<close> reads
  \<^verbatim>\<open>sample.shape[i]\<close> (IndexError when the sample has no axis \<open>i\<close>) and \<^verbatim>\<open>patch_size[i]\<close>
  and draws from \<open>[0, sample.shape[i] - patch_size[i]]\<close>. The first argument list is
  what is left of the sample's shape, the second what is left of the patch size.
\<close>

fun crop_coords :: "generator \<Rightarrow> nat list \<Rightarrow> nat list \<Rightarrow> (error + nat list) \<times> generator" where
  "crop_coords g shp [] = (Inr [], g)"
| "crop_coords g [] (p # ps) = (Inl IndexError, g)"
| "crop_coords g (d # shp) (p # ps) =
     (case integers g 0 (int d - int p) of
        (Inl e, g') \<Rightarrow> (Inl e, g')
      | (Inr c, g') \<Rightarrow>
          (case crop_coords g' shp ps of
             (Inl e, g'') \<Rightarrow> (Inl e, g'')
           | (Inr cs, g'') \<Rightarrow> (Inr (nat c # cs), g'')))"

record patch_lists =
  image_patches :: "ndarray list"
  target_patches :: "ndarray list"

text \<open>One iteration of the inner loop: draw the offsets, cut both patches, append them.\<close>

definition extract_pair ::
  "(real \<Rightarrow> real) \<Rightarrow> generator \<Rightarrow> ndarray \<Rightarrow> ndarray \<Rightarrow> nat list \<Rightarrow> patch_lists
     \<Rightarrow> (error + patch_lists) \<times> generator" where
  "extract_pair f32 g sample target_sample ps acc =
     (case crop_coords g (shape sample) ps of
        (Inl e, g') \<Rightarrow> (Inl e, g')
      | (Inr cs, g') \<Rightarrow>
          (case crop sample cs ps of
             Inl e \<Rightarrow> (Inl e, g')
           | Inr patch \<Rightarrow>
               (case crop target_sample cs ps of
                  Inl e \<Rightarrow> (Inl e, g')
                | Inr target_patch \<Rightarrow>
                    (Inr \<lparr>image_patches = image_patches acc @ [astype f32 Float32 patch],
                          target_patches =
                            target_patches acc @ [astype f32 Float32 target_patch]\<rparr>,
                     g'))))"

text \<open>\<^verbatim>\<open>for _ in range(n_patches)\<close>\<close>

fun patch_loop ::
  "(real \<Rightarrow> real) \<Rightarrow> nat \<Rightarrow> generator \<Rightarrow> ndarray \<Rightarrow> ndarray \<Rightarrow> nat list \<Rightarrow> patch_lists
     \<Rightarrow> (error + patch_lists) \<times> generator" where
  "patch_loop f32 0 g sample target_sample ps acc = (Inr acc, g)"
| "patch_loop f32 (Suc n) g sample target_sample ps acc =
     (case extract_pair f32 g sample target_sample ps acc of
        (Inl e, g') \<Rightarrow> (Inl e, g')
      | (Inr acc', g') \<Rightarrow> patch_loop f32 n g' sample target_sample ps acc')"

text \<open>\<^verbatim>\<open>for s in range(image_array.shape[0])\<close>, over the sample indices still to visit.\<close>

fun sample_loop ::
  "(real \<Rightarrow> real) \<Rightarrow> nat list \<Rightarrow> generator \<Rightarrow> ndarray \<Rightarrow> ndarray \<Rightarrow> nat list \<Rightarrow> patch_lists
     \<Rightarrow> (error + patch_lists) \<times> generator" where
  "sample_loop f32 [] g image_array target_array ps acc = (Inr acc, g)"
| "sample_loop f32 (s # ss) g image_array target_array ps acc =
     (case nd_index image_array (int s) of
        Inl e \<Rightarrow> (Inl e, g)
      | Inr sample \<Rightarrow>
          (case nd_index target_array (int s) of
             Inl e \<Rightarrow> (Inl e, g)
           | Inr target_sample \<Rightarrow>
               (case n_patches (shape sample) ps of
                  Inl e \<Rightarrow> (Inl e, g)
                | Inr n \<Rightarrow>
                    (case patch_loop f32 n g sample target_sample ps acc of
                       (Inl e, g') \<Rightarrow> (Inl e, g')
                     | (Inr acc', g') \<Rightarrow>
                         sample_loop f32 ss g' image_array target_array ps acc'))))"

text \<open>
  The function itself. \<open>g\<close> is the fresh generator of \<^verbatim>\<open>np.random.default_rng()\<close>; the
  two lists start empty and are stacked at the end.
\<close>

definition create_patches ::
  "(real \<Rightarrow> real) \<Rightarrow> generator \<Rightarrow> ndarray \<Rightarrow> ndarray \<Rightarrow> nat list
     \<Rightarrow> (error + ndarray \<times> ndarray) \<times> generator" where
  "create_patches f32 g image_array target_array ps =
     (case shape image_array of
        [] \<Rightarrow> (Inl IndexError, g)
      | S # _ \<Rightarrow>
          (case sample_loop f32 [0..<S] g image_array target_array ps
                  \<lparr>image_patches = [], target_patches = []\<rparr> of
             (Inl e, g') \<Rightarrow> (Inl e, g')
           | (Inr acc, g') \<Rightarrow>
               (case np_stack (image_patches acc) of
                  Inl e \<Rightarrow> (Inl e, g')
                | Inr ips \<Rightarrow>
                    (case np_stack (target_patches acc) of
                       Inl e \<Rightarrow> (Inl e, g')
                     | Inr tps \<Rightarrow> (Inr (ips, tps), g')))))"

subsection \<open>normalize and denormalize\<close>

text \<open>
  Modelled from the spec: \<^verbatim>\<open>normalize\<close> and \<^verbatim>\<open>denormalize\<close> are imported from the
  module \<^verbatim>\<open>transforms\<close>, which is not among the sources. The specification gives
  \<open>(array - mean) / std\<close>, failing with DegenerateStatisticsError on a zero \<open>std\<close>, and
  \<open>array * std + mean\<close>. The result of arithmetic with a 64-bit float is taken to be
  of the promoted dtype.
\<close>

definition normalize :: "ndarray \<Rightarrow> real \<Rightarrow> real \<Rightarrow> error + ndarray" where
  "normalize a mean std =
     (if std = 0 then Inl DegenerateStatisticsError
      else Inr \<lparr>shape = shape a, dtype = result_type (dtype a) Float64,
                data = map (\<lambda>x. (x - mean) / std) (data a)\<rparr>)"

definition denormalize :: "ndarray \<Rightarrow> real \<Rightarrow> real \<Rightarrow> ndarray" where
  "denormalize a mean std =
     \<lparr>shape = shape a, dtype = result_type (dtype a) Float64,
      data = map (\<lambda>x. x * std + mean) (data a)\<rparr>"

subsection \<open>CAREDataset\<close>

record CAREDataset =
  image_data :: ndarray
  target_data :: ndarray
  patch_augment :: bool

text \<open>The four statistics are globals of the notebook, computed from the training stacks.\<close>

record stats =
  train_mean :: real
  train_std :: real
  target_mean :: real
  target_std :: real

definition CAREDataset_init :: "ndarray \<Rightarrow> ndarray \<Rightarrow> bool \<Rightarrow> CAREDataset" where
  "CAREDataset_init image_arr target_arr apply_augmentations =
     \<lparr>image_data = image_arr, target_data = target_arr,
      patch_augment = apply_augmentations\<rparr>"

text \<open>\<^verbatim>\<open>__len__\<close>: \<^verbatim>\<open>self.image_data.shape[0]\<close>\<close>

definition CAREDataset_len :: "CAREDataset \<Rightarrow> error + nat" where
  "CAREDataset_len ds = (case shape (image_data ds) of [] \<Rightarrow> Inl IndexError | n # _ \<Rightarrow> Inr n)"

text \<open>
  \<^verbatim>\<open>__getitem__\<close>. \<^verbatim>\<open>augment_batch\<close> is imported from \<^verbatim>\<open>transforms\<close> as well; it is a
  parameter here: any function of the generator and the two patches, which may raise.
\<close>

type_synonym augmentation =
  "generator \<Rightarrow> ndarray \<Rightarrow> ndarray \<Rightarrow> (error + ndarray \<times> ndarray) \<times> generator"

definition CAREDataset_getitem ::
  "augmentation \<Rightarrow> (real \<Rightarrow> real) \<Rightarrow> stats \<Rightarrow> CAREDataset \<Rightarrow> generator \<Rightarrow> int
     \<Rightarrow> (error + ndarray \<times> ndarray) \<times> generator" where
  "CAREDataset_getitem augment_batch f32 st ds g index =
     (case nd_index (image_data ds) index of
        Inl e \<Rightarrow> (Inl e, g)
      | Inr patch \<Rightarrow>
          (case nd_index (target_data ds) index of
             Inl e \<Rightarrow> (Inl e, g)
           | Inr target \<Rightarrow>
               (case (if patch_augment ds then augment_batch g patch target
                      else (Inr (patch, target), g)) of
                  (Inl e, g') \<Rightarrow> (Inl e, g')
                | (Inr (patch', target'), g') \<Rightarrow>
                    (case normalize patch' (train_mean st) (train_std st) of
                       Inl e \<Rightarrow> (Inl e, g')
                     | Inr p \<Rightarrow>
                         (case normalize target' (target_mean st) (target_std st) of
                            Inl e \<Rightarrow> (Inl e, g')
                          | Inr t \<Rightarrow>
                              (Inr (astype f32 Float32 (newaxis p),
                                    astype f32 Float32 (newaxis t)), g'))))))"


subsection \<open>Notions used in the statements\<close>

text \<open>
  Offsets \<open>cs\<close> at which a patch of size \<open>ps\<close> lies inside a sample of shape \<open>shp\<close>, axis by
  axis from the first: \<open>c + p \<le> d\<close>, that is \<open>c\<close> in \<open>[0, d - p]\<close> with \<open>p \<le> d\<close>.
\<close>

fun in_bounds :: "nat list \<Rightarrow> nat list \<Rightarrow> nat list \<Rightarrow> bool" where
  "in_bounds [] shp [] = True"
| "in_bounds (c # cs) (d # shp) (p # ps) = (c + p \<le> d \<and> in_bounds cs shp ps)"
| "in_bounds _ _ _ = False"

text \<open>A valid patch size for samples of shape \<open>shp\<close>: one positive entry per axis, none larger
  than the axis.\<close>

definition fits :: "nat list \<Rightarrow> nat list \<Rightarrow> bool" where
  "fits ps shp = list_all2 (\<lambda>p d. 0 < p \<and> p \<le> d) ps shp"

text \<open>The number of patches per sample of a stack: the ceiling of sample volume over patch volume.\<close>

definition count_for :: "ndarray \<Rightarrow> nat list \<Rightarrow> nat" where
  "count_for a ps = nat \<lceil>real (prod_list (tl (shape a))) / real (prod_list ps)\<rceil>"

text \<open>The patch the loop body appends for the offsets \<open>cs\<close>: the crop, copied and cast.\<close>

definition cut :: "(real \<Rightarrow> real) \<Rightarrow> ndarray \<Rightarrow> nat list \<Rightarrow> nat list \<Rightarrow> ndarray" where
  "cut f32 a cs ps = astype f32 Float32 (crop_arr a cs ps)"

text \<open>The patch of an extraction event: a sample index and the offsets drawn for it.\<close>

definition patch_at :: "(real \<Rightarrow> real) \<Rightarrow> ndarray \<Rightarrow> nat list \<Rightarrow> nat \<times> nat list \<Rightarrow> ndarray" where
  "patch_at f32 a ps ev = cut f32 (sample_at a (fst ev)) (snd ev) ps"

subsection \<open>Inputs of the examples\<close>

text \<open>
  The stack of Task 1 of the notebook, \<^verbatim>\<open>np.arange(n*n).reshape((n, n))[np.newaxis, ...]\<close>
  with \<open>n = 5\<close>: one sample of shape \<open>(5, 5)\<close>.
\<close>

definition task1_array :: ndarray where
  "task1_array = \<lparr>shape = [1, 5, 5], dtype = Int64, data = map real [0..<25]\<rparr>"

text \<open>
  A stack of one sample with an axis before the two patched ones,
  \<^verbatim>\<open>np.arange(8).reshape((1, 2, 2, 2))\<close>.
\<close>

definition channel_stack :: ndarray where
  "channel_stack = \<lparr>shape = [1, 2, 2, 2], dtype = Int64, data = map real [0..<8]\<rparr>"

text \<open>A dataset of two patch pairs of shape \<open>(1, 1)\<close>, without augmentation, and statistics.\<close>

definition two_patches :: CAREDataset where
  "two_patches =
     CAREDataset_init \<lparr>shape = [2, 1, 1], dtype = Float32, data = [1, 2]\<rparr>
       \<lparr>shape = [2, 1, 1], dtype = Float32, data = [3, 4]\<rparr> False"

definition example_stats :: stats where
  "example_stats = \<lparr>train_mean = 1, train_std = 2, target_mean = 3, target_std = 1\<rparr>"

section \<open>Lemmas about the numpy operations and the loops\<close>

lemma length_indices: "length (indices shp) = prod_list shp"
proof (induction shp)
  case Nil
  then show ?case by simp
next
  case (Cons d ds)
  have "length (concat (map (\<lambda>i. map ((#) i) (indices ds)) [0..<d]))
        = sum_list (map (\<lambda>i. prod_list ds) [0..<d])"
    by (simp add: length_concat comp_def Cons.IH)
  also have "\<dots> = d * prod_list ds"
    by (simp add: sum_list_triv)
  finally show ?case by simp
qed

lemma integers_in_range:
  assumes "low \<le> high"
  shows "\<exists>c. integers g low high = (Inr c, g\<lparr>cursor := Suc (cursor g)\<rparr>) \<and> low \<le> c \<and> c \<le> high"
proof -
  have "0 < nat (high - low + 1)"
    using assms by simp
  then have "draws g (cursor g) mod nat (high - low + 1) < nat (high - low + 1)"
    by (rule mod_less_divisor)
  then have "int (draws g (cursor g) mod nat (high - low + 1)) < high - low + 1"
    by linarith
  then show ?thesis using assms by (simp add: integers_def del: of_nat_mod)
qed

lemma integers_Inr:
  assumes "integers g low high = (Inr c, g')"
  shows "low \<le> c \<and> c \<le> high \<and> g' = g\<lparr>cursor := Suc (cursor g)\<rparr>"
proof (cases "high < low")
  case True
  with assms show ?thesis by (simp add: integers_def)
next
  case False
  then have "low \<le> high" by simp
  from integers_in_range[OF this, of g] assms show ?thesis by auto
qed

lemma integers_empty: "high < low \<Longrightarrow> integers g low high = (Inl (ValueError LowGtHigh), g)"
  by (simp add: integers_def)

lemma crop_coords_Inr:
  "crop_coords g shp ps = (Inr cs, g') \<Longrightarrow>
     in_bounds cs shp ps \<and> g' = g\<lparr>cursor := cursor g + length ps\<rparr>"
proof (induction g shp ps arbitrary: cs g' rule: crop_coords.induct)
  case (1 g shp)
  then show ?case by simp
next
  case (2 g p ps)
  then show ?case by simp
next
  case (3 g d shp p ps)
  from "3.prems" obtain c g1 where d1: "integers g 0 (int d - int p) = (Inr c, g1)"
    by (auto split: prod.splits sum.splits)
  with "3.prems" obtain cs1 where d2: "crop_coords g1 shp ps = (Inr cs1, g')"
    and cs: "cs = nat c # cs1"
    by (auto split: prod.splits sum.splits)
  from integers_Inr[OF d1] have c: "0 \<le> c" "c \<le> int d - int p"
    and g1: "g1 = g\<lparr>cursor := Suc (cursor g)\<rparr>" by auto
  from "3.IH"[OF _ _ d2] d1 have ih: "in_bounds cs1 shp ps" "g' = g1\<lparr>cursor := cursor g1 + length ps\<rparr>"
    by auto
  from c have "nat c + p \<le> d" by linarith
  with ih cs g1 show ?case by simp
qed

lemma crop_coords_fits:
  "list_all2 (\<lambda>p d. p \<le> d) ps shp \<Longrightarrow>
     \<exists>cs. crop_coords g shp ps = (Inr cs, g\<lparr>cursor := cursor g + length ps\<rparr>)"
proof (induction ps shp arbitrary: g rule: list_all2_induct)
  case Nil
  then show ?case by simp
next
  case (Cons p ps d shp)
  have "(0::int) \<le> int d - int p" using Cons.hyps(1) by simp
  from integers_in_range[OF this, of g] obtain c where
    c: "integers g 0 (int d - int p) = (Inr c, g\<lparr>cursor := Suc (cursor g)\<rparr>)" by blast
  from Cons.IH[of "g\<lparr>cursor := Suc (cursor g)\<rparr>"] obtain cs where
    "crop_coords (g\<lparr>cursor := Suc (cursor g)\<rparr>) shp ps
       = (Inr cs, g\<lparr>cursor := Suc (cursor g) + length ps\<rparr>)" by auto
  with c show ?case by simp
qed

lemma crop_coords_too_large:
  "j < length ps \<Longrightarrow> j < length shp \<Longrightarrow> shp ! j < ps ! j \<Longrightarrow> (\<forall>i<j. ps ! i \<le> shp ! i) \<Longrightarrow>
     crop_coords g shp ps = (Inl (ValueError LowGtHigh), g\<lparr>cursor := cursor g + j\<rparr>)"
proof (induction g shp ps arbitrary: j rule: crop_coords.induct)
  case (1 g shp)
  then show ?case by simp
next
  case (2 g p ps)
  then show ?case by simp
next
  case (3 g d shp p ps)
  show ?case
  proof (cases j)
    case 0
    with "3.prems" have "int d - int p < 0" by simp
    from integers_empty[OF this, of g] 0 show ?thesis by simp
  next
    case (Suc k)
    from "3.prems"(4) Suc have "p \<le> d" by auto
    then have "(0::int) \<le> int d - int p" by simp
    from integers_in_range[OF this, of g] obtain c where
      c: "integers g 0 (int d - int p) = (Inr c, g\<lparr>cursor := Suc (cursor g)\<rparr>)" by blast
    have "crop_coords (g\<lparr>cursor := Suc (cursor g)\<rparr>) shp ps
            = (Inl (ValueError LowGtHigh),
               g\<lparr>cursor := Suc (cursor g)\<rparr>\<lparr>cursor := cursor (g\<lparr>cursor := Suc (cursor g)\<rparr>) + k\<rparr>)"
    proof (rule "3.IH"[OF c[symmetric] refl])
      show "k < length ps" using "3.prems"(1) Suc by simp
      show "k < length shp" using "3.prems"(2) Suc by simp
      show "shp ! k < ps ! k" using "3.prems"(3) Suc by simp
      show "\<forall>i<k. ps ! i \<le> shp ! i" using "3.prems"(4) Suc by auto
    qed
    with c Suc show ?thesis by simp
  qed
qed

lemma in_bounds_lengths: "in_bounds cs shp ps \<Longrightarrow> length cs = length ps \<and> length ps \<le> length shp"
  by (induction cs shp ps rule: in_bounds.induct) auto

lemma in_bounds_nth:
  "in_bounds cs shp ps \<Longrightarrow> i < length ps \<Longrightarrow> cs ! i + ps ! i \<le> shp ! i"
proof (induction cs shp ps arbitrary: i rule: in_bounds.induct)
  case (2 c cs d shp p ps)
  then show ?case by (cases i) auto
qed auto

lemma in_bounds_slices:
  "in_bounds cs shp ps \<Longrightarrow> length shp = length ps \<Longrightarrow>
     map2 (-) (map2 min (map2 (+) cs ps) shp) (map2 min cs shp) = ps"
  by (induction cs shp ps rule: in_bounds.induct) auto

lemma shape_crop_arr:
  assumes "in_bounds cs (shape a) ps" and "length (shape a) = length ps"
  shows "shape (crop_arr a cs ps) = ps"
proof -
  from in_bounds_lengths[OF assms(1)] assms(2) have "length (shape a) - length cs = 0" by simp
  then show ?thesis
    using in_bounds_slices[OF assms] by (simp add: crop_arr_def Let_def)
qed

lemma wf_crop_arr: "wf_array (crop_arr a cs ps)"
  by (simp add: wf_array_def crop_arr_def Let_def length_indices)

lemma crop_in_bounds: "in_bounds cs (shape a) ps \<Longrightarrow> crop a cs ps = Inr (crop_arr a cs ps)"
  using in_bounds_lengths[of cs "shape a" ps] by (simp add: crop_def)

lemma extract_pair_Inr:
  assumes "extract_pair f32 g sample target_sample ps acc = (Inr acc', g')"
  shows "\<exists>cs. crop_coords g (shape sample) ps = (Inr cs, g')
           \<and> in_bounds cs (shape sample) ps
           \<and> length cs \<le> length (shape target_sample)
           \<and> image_patches acc' = image_patches acc @ [cut f32 sample cs ps]
           \<and> target_patches acc' = target_patches acc @ [cut f32 target_sample cs ps]
           \<and> g' = g\<lparr>cursor := cursor g + length ps\<rparr>"
proof -
  from assms obtain cs where cc: "crop_coords g (shape sample) ps = (Inr cs, g')"
    and r: "(case crop sample cs ps of
               Inl e \<Rightarrow> (Inl e, g')
             | Inr patch \<Rightarrow>
                 (case crop target_sample cs ps of
                    Inl e \<Rightarrow> (Inl e, g')
                  | Inr target_patch \<Rightarrow>
                      (Inr \<lparr>image_patches = image_patches acc @ [astype f32 Float32 patch],
                            target_patches =
                              target_patches acc @ [astype f32 Float32 target_patch]\<rparr>,
                       g'))) = (Inr acc', g')"
    by (auto simp: extract_pair_def split: prod.splits sum.splits)
  from crop_coords_Inr[OF cc] have b: "in_bounds cs (shape sample) ps"
    and g': "g' = g\<lparr>cursor := cursor g + length ps\<rparr>" by auto
  from r have "length cs \<le> length (shape target_sample)"
    by (auto simp: crop_def split: sum.splits if_splits)
  moreover from r have "acc' = \<lparr>image_patches = image_patches acc @ [cut f32 sample cs ps],
                      target_patches = target_patches acc @ [cut f32 target_sample cs ps]\<rparr>"
    by (auto simp: crop_def cut_def split: sum.splits if_splits)
  ultimately show ?thesis using cc b g' by auto
qed

lemma patch_loop_Inr:
  "patch_loop f32 n g sample target_sample ps acc = (Inr acc', g') \<Longrightarrow>
     \<exists>css. length css = n
       \<and> (\<forall>cs\<in>set css. in_bounds cs (shape sample) ps \<and> length cs \<le> length (shape target_sample))
       \<and> image_patches acc' = image_patches acc @ map (\<lambda>cs. cut f32 sample cs ps) css
       \<and> target_patches acc' = target_patches acc @ map (\<lambda>cs. cut f32 target_sample cs ps) css
       \<and> g' = g\<lparr>cursor := cursor g + n * length ps\<rparr>"
proof (induction n arbitrary: g acc)
  case 0
  then show ?case by simp
next
  case (Suc n)
  from Suc.prems obtain acc1 g1 where
    e: "extract_pair f32 g sample target_sample ps acc = (Inr acc1, g1)"
    and l: "patch_loop f32 n g1 sample target_sample ps acc1 = (Inr acc', g')"
    by (auto split: prod.splits sum.splits)
  from extract_pair_Inr[OF e] obtain cs where
    cs: "in_bounds cs (shape sample) ps" "length cs \<le> length (shape target_sample)"
      "image_patches acc1 = image_patches acc @ [cut f32 sample cs ps]"
      "target_patches acc1 = target_patches acc @ [cut f32 target_sample cs ps]"
      "g1 = g\<lparr>cursor := cursor g + length ps\<rparr>" by blast
  from Suc.IH[OF l] obtain css where
    css: "length css = n"
      "\<forall>cs\<in>set css. in_bounds cs (shape sample) ps \<and> length cs \<le> length (shape target_sample)"
      "image_patches acc' = image_patches acc1 @ map (\<lambda>cs. cut f32 sample cs ps) css"
      "target_patches acc' = target_patches acc1 @ map (\<lambda>cs. cut f32 target_sample cs ps) css"
      "g' = g1\<lparr>cursor := cursor g1 + n * length ps\<rparr>" by blast
  show ?case
  proof (intro exI[of _ "cs # css"] conjI)
    show "length (cs # css) = Suc n" using css(1) by simp
    show "\<forall>cs\<in>set (cs # css). in_bounds cs (shape sample) ps \<and> length cs \<le> length (shape target_sample)"
      using cs(1,2) css(2) by simp
    show "image_patches acc' = image_patches acc @ map (\<lambda>cs. cut f32 sample cs ps) (cs # css)"
      using cs(3) css(3) by simp
    show "target_patches acc' = target_patches acc @ map (\<lambda>cs. cut f32 target_sample cs ps) (cs # css)"
      using cs(4) css(4) by simp
    show "g' = g\<lparr>cursor := cursor g + Suc n * length ps\<rparr>"
      using cs(5) css(5) by (simp add: add.assoc add.commute)
  qed
qed

lemma nd_index_Inr:
  assumes "nd_index a (int s) = Inr x"
  shows "x = sample_at a s \<and> shape a \<noteq> [] \<and> s < hd (shape a)"
  using assms by (auto simp: nd_index_def Let_def split: list.splits if_splits)

lemma shape_sample_at: "shape (sample_at a s) = tl (shape a)"
  by (simp add: sample_at_def Let_def)

lemma sample_loop_Inr:
  "sample_loop f32 ss g image_array target_array ps acc = (Inr acc', g') \<Longrightarrow>
     \<exists>evs. length evs = length ss * count_for image_array ps
       \<and> (\<forall>ev\<in>set evs. fst ev \<in> set ss \<and> in_bounds (snd ev) (tl (shape image_array)) ps
              \<and> length (snd ev) \<le> length (tl (shape target_array)))
       \<and> image_patches acc' = image_patches acc @ map (patch_at f32 image_array ps) evs
       \<and> target_patches acc' = target_patches acc @ map (patch_at f32 target_array ps) evs
       \<and> (\<forall>s\<in>set ss. s < hd (shape image_array) \<and> shape target_array \<noteq> []
              \<and> s < hd (shape target_array))"
proof (induction ss arbitrary: g acc)
  case Nil
  then show ?case by simp
next
  case (Cons s ss)
  from Cons.prems obtain sample where i1: "nd_index image_array (int s) = Inr sample"
    by (auto split: sum.splits)
  from Cons.prems i1 obtain target_sample where i2: "nd_index target_array (int s) = Inr target_sample"
    by (auto split: sum.splits)
  from Cons.prems i1 i2 obtain n where n: "n_patches (shape sample) ps = Inr n"
    by (auto split: sum.splits)
  from Cons.prems i1 i2 n obtain acc1 g1 where
    p: "patch_loop f32 n g sample target_sample ps acc = (Inr acc1, g1)"
    and l: "sample_loop f32 ss g1 image_array target_array ps acc1 = (Inr acc', g')"
    by (auto split: sum.splits prod.splits)
  from nd_index_Inr[OF i1] have s1: "sample = sample_at image_array s" "s < hd (shape image_array)"
    by auto
  from nd_index_Inr[OF i2] have s2: "target_sample = sample_at target_array s"
    "shape target_array \<noteq> []" "s < hd (shape target_array)" by auto
  from n have nn: "n = count_for image_array ps"
    by (auto simp: n_patches_def count_for_def s1 shape_sample_at split: if_splits)
  from patch_loop_Inr[OF p] obtain css where
    css: "length css = n"
      "\<forall>cs\<in>set css. in_bounds cs (shape sample) ps \<and> length cs \<le> length (shape target_sample)"
      "image_patches acc1 = image_patches acc @ map (\<lambda>cs. cut f32 sample cs ps) css"
      "target_patches acc1 = target_patches acc @ map (\<lambda>cs. cut f32 target_sample cs ps) css"
    by blast
  from Cons.IH[OF l] obtain evs where
    evs: "length evs = length ss * count_for image_array ps"
      "\<forall>ev\<in>set evs. fst ev \<in> set ss \<and> in_bounds (snd ev) (tl (shape image_array)) ps
              \<and> length (snd ev) \<le> length (tl (shape target_array))"
      "image_patches acc' = image_patches acc1 @ map (patch_at f32 image_array ps) evs"
      "target_patches acc' = target_patches acc1 @ map (patch_at f32 target_array ps) evs"
      "\<forall>s\<in>set ss. s < hd (shape image_array) \<and> shape target_array \<noteq> []
              \<and> s < hd (shape target_array)"
    by blast
  let ?new = "map (Pair s) css"
  have m1: "map (\<lambda>cs. cut f32 sample cs ps) css = map (patch_at f32 image_array ps) ?new"
    by (simp add: patch_at_def s1 comp_def)
  have m2: "map (\<lambda>cs. cut f32 target_sample cs ps) css = map (patch_at f32 target_array ps) ?new"
    by (simp add: patch_at_def s2 comp_def)
  show ?case
  proof (intro exI[of _ "?new @ evs"] conjI)
    show "length (?new @ evs) = length (s # ss) * count_for image_array ps"
      using css(1) evs(1) nn by simp
    show "\<forall>ev\<in>set (?new @ evs). fst ev \<in> set (s # ss)
            \<and> in_bounds (snd ev) (tl (shape image_array)) ps
            \<and> length (snd ev) \<le> length (tl (shape target_array))"
      using css(2) evs(2) by (auto simp: s1 s2 shape_sample_at)
    show "image_patches acc' = image_patches acc @ map (patch_at f32 image_array ps) (?new @ evs)"
      using css(3) evs(3) m1 by simp
    show "target_patches acc' = target_patches acc @ map (patch_at f32 target_array ps) (?new @ evs)"
      using css(4) evs(4) m2 by simp
    show "\<forall>s\<in>set (s # ss). s < hd (shape image_array) \<and> shape target_array \<noteq> []
              \<and> s < hd (shape target_array)"
      using s1 s2 evs(5) by simp
  qed
qed

lemma block_of_concat:
  "\<forall>x\<in>set xs. length x = m \<Longrightarrow> i < length xs \<Longrightarrow> take m (drop (i * m) (concat xs)) = xs ! i"
proof (induction xs arbitrary: i)
  case Nil
  then show ?case by simp
next
  case (Cons x xs)
  show ?case
  proof (cases i)
    case 0
    with Cons.prems show ?thesis by simp
  next
    case (Suc k)
    with Cons.prems have "take m (drop (k * m) (concat xs)) = xs ! k"
      by (intro Cons.IH) auto
    moreover have "length x = m" using Cons.prems by simp
    ultimately show ?thesis using Suc by (simp add: drop_append)
  qed
qed

lemma foldl_result_type_same: "\<forall>u\<in>set ts. u = t \<Longrightarrow> foldl result_type t ts = t"
  by (induction ts) (auto simp: result_type_def)

lemma np_stack_Inr:
  assumes "np_stack xs = Inr a"
  shows "xs \<noteq> []"
    and "\<forall>x\<in>set xs. shape x = shape (hd xs)"
    and "shape a = length xs # shape (hd xs)"
    and "dtype a = foldl result_type (dtype (hd xs)) (map dtype (tl xs))"
    and "data a = concat (map data xs)"
  using assms by (auto simp: np_stack_def list_all_iff split: list.splits if_splits)

lemma np_stack_same_shape:
  assumes "xs \<noteq> []" and "\<forall>x\<in>set xs. shape x = shp"
  shows "\<exists>a. np_stack xs = Inr a \<and> shape a = length xs # shp"
proof (cases xs)
  case Nil
  with assms show ?thesis by simp
next
  case (Cons x ys)
  with assms have "list_all (\<lambda>y. shape y = shape x) ys" by (simp add: list_all_iff)
  with Cons assms show ?thesis by (simp add: np_stack_def)
qed

lemma nd_index_stack:
  assumes st: "np_stack xs = Inr a" and i: "i < length xs"
    and wf: "\<forall>x\<in>set xs. wf_array x \<and> dtype x = t"
  shows "nd_index a (int i) = Inr (xs ! i)"
proof -
  define shp where "shp = shape (hd xs)"
  define m where "m = prod_list shp"
  have ne: "xs \<noteq> []"
    and sh: "\<forall>x\<in>set xs. shape x = shp"
    and shape_a: "shape a = length xs # shp"
    and dtype_a: "dtype a = foldl result_type (dtype (hd xs)) (map dtype (tl xs))"
    and data_a: "data a = concat (map data xs)"
    unfolding shp_def by (rule np_stack_Inr[OF st])+
  have len: "\<forall>d\<in>set (map data xs). length d = m"
  proof
    fix d assume "d \<in> set (map data xs)"
    then obtain x where x: "x \<in> set xs" "d = data x" by auto
    with wf sh have "length (data x) = prod_list (shape x)" "shape x = shp"
      by (simp_all add: wf_array_def)
    with x show "length d = m" by (simp add: m_def)
  qed
  have "take m (drop (i * m) (concat (map data xs))) = map data xs ! i"
    using len i by (intro block_of_concat) simp_all
  then have d: "take m (drop (i * m) (data a)) = data (xs ! i)"
    using i by (simp add: data_a)
  have "hd xs \<in> set xs" using ne by simp
  then have "dtype (hd xs) = t" using wf by blast
  moreover have "\<forall>u\<in>set (map dtype (tl xs)). u = t"
  proof
    fix u assume "u \<in> set (map dtype (tl xs))"
    then obtain x where "x \<in> set (tl xs)" "u = dtype x" by auto
    moreover from this(1) ne have "x \<in> set xs" by (rule_tac list.set_sel(2))
    ultimately show "u = t" using wf by blast
  qed
  ultimately have t: "dtype a = t"
    using foldl_result_type_same[of "map dtype (tl xs)" t] by (simp add: dtype_a)
  have xi: "xs ! i \<in> set xs" using i by simp
  then have xi_shape: "shape (xs ! i) = shp" and xi_dtype: "dtype (xs ! i) = t"
    using sh wf by blast+
  have "sample_at a i = \<lparr>shape = shp, dtype = t, data = data (xs ! i)\<rparr>"
    unfolding sample_at_def Let_def shape_a list.sel t m_def[symmetric] d ..
  also have "\<dots> = xs ! i"
    using xi_shape xi_dtype by simp
  finally have s: "sample_at a i = xs ! i" .
  have "nd_index a (int i) = Inr (sample_at a i)"
    using i by (simp add: nd_index_def shape_a)
  with s show ?thesis by simp
qed

lemma wf_cut: "wf_array (cut f32 a cs ps)"
  using wf_crop_arr[of a cs ps] by (simp add: cut_def astype_def wf_array_def)

lemma dtype_cut: "dtype (cut f32 a cs ps) = Float32"
  by (simp add: cut_def astype_def)

lemma shape_cut:
  "in_bounds cs (shape a) ps \<Longrightarrow> length (shape a) = length ps \<Longrightarrow> shape (cut f32 a cs ps) = ps"
  by (simp add: cut_def astype_def shape_crop_arr)

lemma cut_cong:
  "shape a = shape b \<Longrightarrow> data a = data b \<Longrightarrow> cut f32 a cs ps = cut f32 b cs ps"
  by (simp add: cut_def astype_def crop_arr_def Let_def)

lemma patch_at_cong:
  "shape a = shape b \<Longrightarrow> data a = data b \<Longrightarrow> patch_at f32 a ps ev = patch_at f32 b ps ev"
  unfolding patch_at_def by (rule cut_cong) (simp_all add: sample_at_def Let_def)

lemma create_patches_Inr:
  assumes "create_patches f32 g image_array target_array ps = (Inr (ips, tps), g')"
  shows "\<exists>S shp evs. shape image_array = S # shp
           \<and> length evs = S * count_for image_array ps
           \<and> (\<forall>ev\<in>set evs. fst ev < S \<and> in_bounds (snd ev) shp ps
                  \<and> shape target_array \<noteq> [] \<and> fst ev < hd (shape target_array)
                  \<and> length (snd ev) \<le> length (tl (shape target_array)))
           \<and> np_stack (map (patch_at f32 image_array ps) evs) = Inr ips
           \<and> np_stack (map (patch_at f32 target_array ps) evs) = Inr tps"
proof -
  from assms obtain S shp where sh: "shape image_array = S # shp"
    by (auto simp: create_patches_def split: list.splits)
  from assms sh obtain acc where
    l: "sample_loop f32 [0..<S] g image_array target_array ps
          \<lparr>image_patches = [], target_patches = []\<rparr> = (Inr acc, g')"
    and s1: "np_stack (image_patches acc) = Inr ips"
    and s2: "np_stack (target_patches acc) = Inr tps"
    by (auto simp: create_patches_def split: prod.splits sum.splits)
  from sample_loop_Inr[OF l] obtain evs where
    evs: "length evs = length [0..<S] * count_for image_array ps"
      "\<forall>ev\<in>set evs. fst ev \<in> set [0..<S] \<and> in_bounds (snd ev) (tl (shape image_array)) ps
              \<and> length (snd ev) \<le> length (tl (shape target_array))"
      "image_patches acc = map (patch_at f32 image_array ps) evs"
      "target_patches acc = map (patch_at f32 target_array ps) evs"
      "\<forall>s\<in>set [0..<S]. s < hd (shape image_array) \<and> shape target_array \<noteq> []
              \<and> s < hd (shape target_array)"
    by auto
  show ?thesis
  proof (intro exI[of _ S] exI[of _ shp] exI[of _ evs] conjI)
    show "shape image_array = S # shp" by (rule sh)
    show "length evs = S * count_for image_array ps" using evs(1) by simp
    show "\<forall>ev\<in>set evs. fst ev < S \<and> in_bounds (snd ev) shp ps
                  \<and> shape target_array \<noteq> [] \<and> fst ev < hd (shape target_array)
                  \<and> length (snd ev) \<le> length (tl (shape target_array))"
      using evs(2,5) sh by auto
    show "np_stack (map (patch_at f32 image_array ps) evs) = Inr ips" using s1 evs(3) by simp
    show "np_stack (map (patch_at f32 target_array ps) evs) = Inr tps" using s2 evs(4) by simp
  qed
qed

lemma fits_le: "fits ps shp \<Longrightarrow> list_all2 (\<lambda>p d. p \<le> d) ps shp"
  unfolding fits_def by (erule list_all2_mono) simp

lemma fits_length: "fits ps shp \<Longrightarrow> length shp = length ps"
  by (simp add: fits_def list_all2_lengthD)

lemma fits_prod: "fits ps shp \<Longrightarrow> 0 < prod_list ps \<and> prod_list ps \<le> prod_list shp"
  unfolding fits_def by (induction ps shp rule: list_all2_induct) (auto intro: mult_le_mono)

lemma n_patches_fits:
  assumes "fits ps shp"
  shows "\<exists>n. n_patches shp ps = Inr n \<and> 0 < n"
proof -
  from fits_prod[OF assms] have p: "0 < prod_list ps" "prod_list ps \<le> prod_list shp" by auto
  then have "0 < real (prod_list shp) / real (prod_list ps)" by simp
  then have "0 < nat \<lceil>real (prod_list shp) / real (prod_list ps)\<rceil>" by simp
  with p show ?thesis by (simp add: n_patches_def)
qed

lemma extract_pair_fits:
  assumes "fits ps (shape sample)" and "length ps \<le> length (shape target_sample)"
  shows "\<exists>acc'. extract_pair f32 g sample target_sample ps acc
                 = (Inr acc', g\<lparr>cursor := cursor g + length ps\<rparr>)"
proof -
  from crop_coords_fits[OF fits_le[OF assms(1)], of g] obtain cs where
    cc: "crop_coords g (shape sample) ps = (Inr cs, g\<lparr>cursor := cursor g + length ps\<rparr>)"
    by blast
  from crop_coords_Inr[OF cc] have "in_bounds cs (shape sample) ps" by simp
  from in_bounds_lengths[OF this] assms(2)
  have "length cs \<le> length (shape sample)" "length cs \<le> length (shape target_sample)"
    by simp_all
  then have "crop sample cs ps = Inr (crop_arr sample cs ps)"
    "crop target_sample cs ps = Inr (crop_arr target_sample cs ps)"
    by (simp_all add: crop_def)
  with cc show ?thesis by (simp add: extract_pair_def)
qed

lemma patch_loop_fits:
  assumes "fits ps (shape sample)" and "length ps \<le> length (shape target_sample)"
  shows "\<exists>acc'. patch_loop f32 n g sample target_sample ps acc
                 = (Inr acc', g\<lparr>cursor := cursor g + n * length ps\<rparr>)"
proof (induction n arbitrary: g acc)
  case 0
  then show ?case by simp
next
  case (Suc n)
  from extract_pair_fits[OF assms, of f32 g acc] obtain acc1 where
    e: "extract_pair f32 g sample target_sample ps acc
          = (Inr acc1, g\<lparr>cursor := cursor g + length ps\<rparr>)" by blast
  from Suc.IH[of "g\<lparr>cursor := cursor g + length ps\<rparr>" acc1] obtain acc2 where
    "patch_loop f32 n (g\<lparr>cursor := cursor g + length ps\<rparr>) sample target_sample ps acc1
       = (Inr acc2, g\<lparr>cursor := cursor g + length ps + n * length ps\<rparr>)" by auto
  with e show ?case by (simp add: add.assoc)
qed

lemma nd_index_in_range:
  "shape a = n # shp \<Longrightarrow> s < n \<Longrightarrow> nd_index a (int s) = Inr (sample_at a s)"
  by (simp add: nd_index_def)

lemma sample_loop_fits:
  assumes "shape image_array = S # shp" and "shape target_array = T # tshp"
    and "fits ps shp" and "length ps \<le> length tshp"
  shows "\<forall>s\<in>set ss. s < S \<and> s < T \<Longrightarrow>
         \<exists>acc' g'. sample_loop f32 ss g image_array target_array ps acc = (Inr acc', g')"
proof (induction ss arbitrary: g acc)
  case Nil
  then show ?case by simp
next
  case (Cons s ss)
  then have s: "s < S" "s < T" by simp_all
  have i1: "nd_index image_array (int s) = Inr (sample_at image_array s)"
    using assms(1) s(1) by (rule nd_index_in_range)
  have i2: "nd_index target_array (int s) = Inr (sample_at target_array s)"
    using assms(2) s(2) by (rule nd_index_in_range)
  have sh1: "shape (sample_at image_array s) = shp" by (simp add: shape_sample_at assms(1))
  have sh2: "shape (sample_at target_array s) = tshp" by (simp add: shape_sample_at assms(2))
  from n_patches_fits[OF assms(3)] obtain n where n: "n_patches shp ps = Inr n" by blast
  have "fits ps (shape (sample_at image_array s))" using assms(3) sh1 by simp
  moreover have "length ps \<le> length (shape (sample_at target_array s))"
    using assms(4) sh2 by simp
  ultimately obtain acc1 g1 where
    p: "patch_loop f32 n g (sample_at image_array s) (sample_at target_array s) ps acc
          = (Inr acc1, g1)"
    using patch_loop_fits[of ps "sample_at image_array s" "sample_at target_array s" f32 n g acc]
    by blast
  from Cons.IH[of g1 acc1] Cons.prems obtain acc2 g2 where
    "sample_loop f32 ss g1 image_array target_array ps acc1 = (Inr acc2, g2)" by auto
  with i1 i2 n p sh1 show ?case by simp
qed

lemma create_patches_fits:
  assumes img: "shape image_array = S # shp" and tgt: "shape target_array = S # shp"
    and S: "0 < S" and fits: "fits ps shp"
  shows "\<exists>ips tps g'. create_patches f32 g image_array target_array ps = (Inr (ips, tps), g')
           \<and> shape ips = (S * count_for image_array ps) # ps
           \<and> shape tps = (S * count_for image_array ps) # ps"
proof -
  have len: "length ps \<le> length shp" using fits_length[OF fits] by simp
  have "\<forall>s\<in>set [0..<S]. s < S \<and> s < S" by simp
  from sample_loop_fits[OF img tgt fits len this, of f32 g "\<lparr>image_patches = [], target_patches = []\<rparr>"]
  obtain acc g' where
    l: "sample_loop f32 [0..<S] g image_array target_array ps
          \<lparr>image_patches = [], target_patches = []\<rparr> = (Inr acc, g')" by blast
  from sample_loop_Inr[OF l] obtain evs where
    evs: "length evs = length [0..<S] * count_for image_array ps"
      "\<forall>ev\<in>set evs. fst ev \<in> set [0..<S] \<and> in_bounds (snd ev) (tl (shape image_array)) ps
              \<and> length (snd ev) \<le> length (tl (shape target_array))"
      "image_patches acc = map (patch_at f32 image_array ps) evs"
      "target_patches acc = map (patch_at f32 target_array ps) evs"
    by auto
  from n_patches_fits[OF fits] have "0 < count_for image_array ps"
    by (auto simp: n_patches_def count_for_def img split: if_splits)
  with S evs(1) have ne: "evs \<noteq> []" by auto
  have lsh: "length shp = length ps" by (rule fits_length[OF fits])
  have sh1: "\<forall>x\<in>set (image_patches acc). shape x = ps"
  proof
    fix x assume "x \<in> set (image_patches acc)"
    then obtain ev where ev: "ev \<in> set evs" "x = patch_at f32 image_array ps ev"
      using evs(3) by auto
    from evs(2) ev(1) have "in_bounds (snd ev) shp ps" using img by auto
    then show "shape x = ps"
      unfolding ev(2) patch_at_def by (intro shape_cut) (simp_all add: shape_sample_at img lsh)
  qed
  have sh2: "\<forall>x\<in>set (target_patches acc). shape x = ps"
  proof
    fix x assume "x \<in> set (target_patches acc)"
    then obtain ev where ev: "ev \<in> set evs" "x = patch_at f32 target_array ps ev"
      using evs(4) by auto
    from evs(2) ev(1) have "in_bounds (snd ev) shp ps" using img by auto
    then show "shape x = ps"
      unfolding ev(2) patch_at_def by (intro shape_cut) (simp_all add: shape_sample_at tgt lsh)
  qed
  from ne evs(3) have "image_patches acc \<noteq> []" by simp
  from np_stack_same_shape[OF this sh1] obtain ips where
    ips: "np_stack (image_patches acc) = Inr ips" "shape ips = length (image_patches acc) # ps"
    by blast
  from ne evs(4) have "target_patches acc \<noteq> []" by simp
  from np_stack_same_shape[OF this sh2] obtain tps where
    tps: "np_stack (target_patches acc) = Inr tps" "shape tps = length (target_patches acc) # ps"
    by blast
  have "create_patches f32 g image_array target_array ps = (Inr (ips, tps), g')"
    using l ips(1) tps(1) by (simp add: create_patches_def img)
  moreover have "shape ips = (S * count_for image_array ps) # ps"
    using ips(2) evs(1,3) by simp
  moreover have "shape tps = (S * count_for image_array ps) # ps"
    using tps(2) evs(1,4) by simp
  ultimately show ?thesis by blast
qed

lemma getitem_plain:
  "\<not> patch_augment ds \<Longrightarrow>
   CAREDataset_getitem augment_batch f32 st ds g index =
     ((case nd_index (image_data ds) index of
        Inl e \<Rightarrow> Inl e
      | Inr patch \<Rightarrow>
          (case nd_index (target_data ds) index of
             Inl e \<Rightarrow> Inl e
           | Inr target \<Rightarrow>
               (case normalize patch (train_mean st) (train_std st) of
                  Inl e \<Rightarrow> Inl e
                | Inr p \<Rightarrow>
                    (case normalize target (target_mean st) (target_std st) of
                       Inl e \<Rightarrow> Inl e
                     | Inr t \<Rightarrow> Inr (astype f32 Float32 (newaxis p),
                                     astype f32 Float32 (newaxis t)))))), g)"
  by (simp add: CAREDataset_getitem_def split: sum.splits)

lemma nd_index_out_of_range:
  "shape a = n # shp \<Longrightarrow> index < - int n \<or> int n \<le> index \<Longrightarrow> nd_index a index = Inl IndexError"
  by (auto simp: nd_index_def Let_def)

lemma nd_index_negative:
  "shape a = n # shp \<Longrightarrow> - int n \<le> index \<Longrightarrow> index < 0 \<Longrightarrow>
     nd_index a index = nd_index a (index + int n)"
  by (auto simp: nd_index_def Let_def)

lemma shape_normalize: "normalize a m s = Inr b \<Longrightarrow> shape b = shape a"
  by (auto simp: normalize_def split: if_splits)

lemma getitem_shape:
  assumes img: "shape (image_data ds) = n # shp" and tgt: "shape (target_data ds) = n # tshp"
    and idx: "0 \<le> index" "index < int n"
    and std: "train_std st \<noteq> 0" "target_std st \<noteq> 0"
    and aug: "patch_augment ds \<longrightarrow>
                (\<forall>g p t. \<exists>p' t' g'. augment_batch g p t = (Inr (p', t'), g')
                    \<and> shape p' = shape p \<and> shape t' = shape t)"
  shows "\<exists>p t g'. CAREDataset_getitem augment_batch f32 st ds g index = (Inr (p, t), g')
           \<and> shape p = 1 # shp \<and> dtype p = Float32
           \<and> shape t = 1 # tshp \<and> dtype t = Float32"
proof -
  from idx have i: "index = int (nat index)" "nat index < n" by simp_all
  have i1: "nd_index (image_data ds) index = Inr (sample_at (image_data ds) (nat index))"
    using nd_index_in_range[OF img i(2)] i(1) by simp
  have i2: "nd_index (target_data ds) index = Inr (sample_at (target_data ds) (nat index))"
    using nd_index_in_range[OF tgt i(2)] i(1) by simp
  let ?patch = "sample_at (image_data ds) (nat index)"
  let ?target = "sample_at (target_data ds) (nat index)"
  have "\<exists>p' t' g'. (if patch_augment ds then augment_batch g ?patch ?target
                     else (Inr (?patch, ?target), g)) = (Inr (p', t'), g')
           \<and> shape p' = shp \<and> shape t' = tshp"
  proof (cases "patch_augment ds")
    case True
    with aug obtain p' t' g' where "augment_batch g ?patch ?target = (Inr (p', t'), g')"
      "shape p' = shape ?patch" "shape t' = shape ?target" by blast
    with True show ?thesis by (simp add: shape_sample_at img tgt)
  next
    case False
    then show ?thesis by (simp add: shape_sample_at img tgt)
  qed
  then obtain p' t' g' where
    a: "(if patch_augment ds then augment_batch g ?patch ?target
         else (Inr (?patch, ?target), g)) = (Inr (p', t'), g')"
    and s: "shape p' = shp" "shape t' = tshp" by blast
  from std obtain p t where
    n: "normalize p' (train_mean st) (train_std st) = Inr p"
       "normalize t' (target_mean st) (target_std st) = Inr t"
    by (simp add: normalize_def)
  from shape_normalize[OF n(1)] shape_normalize[OF n(2)] s
  have s': "shape p = shp" "shape t = tshp" by simp_all
  have "CAREDataset_getitem augment_batch f32 st ds g index
          = (Inr (astype f32 Float32 (newaxis p), astype f32 Float32 (newaxis t)), g')"
    by (simp only: CAREDataset_getitem_def i1 i2 a n sum.case prod.case)
  then show ?thesis
    using s' by (simp add: astype_def newaxis_def)
qed

lemma create_patches_shape:
  assumes run: "create_patches f32 g image_array target_array ps = (Inr (ips, tps), g')"
    and img: "shape image_array = S # shp" and tgt: "tl (shape target_array) = shp"
    and rank: "length shp = length ps"
  shows "shape ips = (S * count_for image_array ps) # ps"
    and "shape tps = (S * count_for image_array ps) # ps"
proof -
  from create_patches_Inr[OF run] img obtain evs where
    len: "length evs = S * count_for image_array ps"
    and evs: "\<forall>ev\<in>set evs. fst ev < S \<and> in_bounds (snd ev) shp ps
                  \<and> shape target_array \<noteq> [] \<and> fst ev < hd (shape target_array)
                  \<and> length (snd ev) \<le> length (tl (shape target_array))"
    and s1: "np_stack (map (patch_at f32 image_array ps) evs) = Inr ips"
    and s2: "np_stack (map (patch_at f32 target_array ps) evs) = Inr tps"
    by auto
  have ne: "evs \<noteq> []" using np_stack_Inr(1)[OF s1] by simp
  then have h: "hd evs \<in> set evs" by simp
  with evs have b: "in_bounds (snd (hd evs)) shp ps" by blast
  have "shape (patch_at f32 image_array ps (hd evs)) = ps"
    unfolding patch_at_def using b by (intro shape_cut) (simp_all add: shape_sample_at img rank)
  with np_stack_Inr(3)[OF s1] ne len
  show "shape ips = (S * count_for image_array ps) # ps" by (simp add: hd_map)
  have "shape (patch_at f32 target_array ps (hd evs)) = ps"
    unfolding patch_at_def using b by (intro shape_cut) (simp_all add: shape_sample_at tgt rank)
  with np_stack_Inr(3)[OF s2] ne len
  show "shape tps = (S * count_for image_array ps) # ps" by (simp add: hd_map)
qed

lemma n_patches_positive:
  "0 < prod_list shp \<Longrightarrow> 0 < prod_list ps \<Longrightarrow> \<exists>k. n_patches shp ps = Inr (Suc k)"
proof -
  assume a: "0 < prod_list shp" "0 < prod_list ps"
  then have "0 < real (prod_list shp) / real (prod_list ps)" by simp
  then have "0 < nat \<lceil>real (prod_list shp) / real (prod_list ps)\<rceil>" by simp
  then obtain k where "nat \<lceil>real (prod_list shp) / real (prod_list ps)\<rceil> = Suc k"
    by (auto simp: gr0_conv_Suc)
  with a show ?thesis by (simp add: n_patches_def)
qed

lemma create_patches_fails_at:
  assumes img: "shape image_array = S # shp" and S: "0 < S"
    and tgt: "shape target_array = T # tshp" and T: "0 < T"
    and vol: "0 < prod_list shp" and pvol: "0 < prod_list ps"
    and j: "j < length ps" "j < length shp" "shp ! j < ps ! j"
    and before: "\<forall>i<j. ps ! i \<le> shp ! i"
  shows "create_patches f32 g image_array target_array ps
           = (Inl (ValueError LowGtHigh), g\<lparr>cursor := cursor g + j\<rparr>)"
proof -
  let ?sample = "sample_at image_array 0"
  let ?target = "sample_at target_array 0"
  let ?acc = "\<lparr>image_patches = [], target_patches = []\<rparr>"
  have i1: "nd_index image_array (int 0) = Inr ?sample"
    using img S by (rule nd_index_in_range)
  have i2: "nd_index target_array (int 0) = Inr ?target"
    using tgt T by (rule nd_index_in_range)
  have sh: "shape ?sample = shp" by (simp add: shape_sample_at img)
  from n_patches_positive[OF vol pvol] obtain k where n: "n_patches shp ps = Inr (Suc k)" by blast
  have cc: "crop_coords g shp ps = (Inl (ValueError LowGtHigh), g\<lparr>cursor := cursor g + j\<rparr>)"
    using j before by (rule crop_coords_too_large)
  have e: "extract_pair f32 g ?sample ?target ps ?acc
             = (Inl (ValueError LowGtHigh), g\<lparr>cursor := cursor g + j\<rparr>)"
    by (simp add: extract_pair_def sh cc)
  have p: "patch_loop f32 (Suc k) g ?sample ?target ps ?acc
             = (Inl (ValueError LowGtHigh), g\<lparr>cursor := cursor g + j\<rparr>)"
    by (simp add: e)
  have "[0..<S] = 0 # [1..<S]" using S by (simp add: upt_conv_Cons)
  then have "sample_loop f32 [0..<S] g image_array target_array ps ?acc
               = (Inl (ValueError LowGtHigh), g\<lparr>cursor := cursor g + j\<rparr>)"
    using i1 i2 n p by (simp add: sh)
  then show ?thesis by (simp add: create_patches_def img)
qed

lemma crop_coords_reaches:
  "in_bounds cs shp ps \<Longrightarrow> (\<forall>i<length cs. draws g (cursor g + i) = cs ! i) \<Longrightarrow>
     crop_coords g shp ps = (Inr cs, g\<lparr>cursor := cursor g + length ps\<rparr>)"
proof (induction cs shp ps arbitrary: g rule: in_bounds.induct)
  case (1 shp)
  then show ?case by simp
next
  case (2 c cs d shp p ps)
  from "2.prems"(1) have b: "c + p \<le> d" "in_bounds cs shp ps" by simp_all
  from "2.prems"(2) have d0: "draws g (cursor g) = c" by auto
  have "c mod nat (int d - int p + 1) = c" using b(1) by simp
  then have i: "integers g 0 (int d - int p) = (Inr (int c), g\<lparr>cursor := Suc (cursor g)\<rparr>)"
    using b(1) d0 by (simp add: integers_def del: of_nat_mod)
  have "\<forall>i<length cs. draws (g\<lparr>cursor := Suc (cursor g)\<rparr>) (cursor (g\<lparr>cursor := Suc (cursor g)\<rparr>) + i) = cs ! i"
    using "2.prems"(2) by auto
  from "2.IH"[OF b(2) this] i show ?case by simp
qed simp_all

lemma task1_shape: "shape task1_array = 1 # [5, 5]"
  by (simp add: task1_array_def)

lemma fits_2_5: "fits [2, 2] [5, 5]"
  by (simp add: fits_def)

lemma two_patches_shapes:
  "shape (image_data two_patches) = 2 # [1, 1]" "shape (target_data two_patches) = 2 # [1, 1]"
  by (simp_all add: two_patches_def CAREDataset_init_def)

lemma two_patches_item:
  "CAREDataset_getitem augment_batch id example_stats two_patches g 1
     = (Inr (\<lparr>shape = [1, 1, 1], dtype = Float32, data = [1 / 2]\<rparr>,
             \<lparr>shape = [1, 1, 1], dtype = Float32, data = [1]\<rparr>), g)"
  by (simp add: CAREDataset_getitem_def two_patches_def CAREDataset_init_def example_stats_def
      nd_index_def sample_at_def normalize_def astype_def newaxis_def result_type_def)

subsection \<open>The model at work on Task 1\<close>

text \<open>
  The crop of the \<open>5 \<times> 5\<close> sample at the offsets \<open>(1, 2)\<close>, a crop that numpy clips, and a
  whole run of \<open>create_patches\<close> for the generator whose raw draws are \<open>1, 2, 3, \<dots>\<close>: seven
  pairs, as \<open>\<lceil>25 / 4\<rceil> = 7\<close>.
\<close>

lemma task1_crop:
  "crop (sample_at task1_array 0) [1, 2] [2, 2]
     = Inr \<lparr>shape = [2, 2], dtype = Int64, data = [7, 8, 12, 13]\<rparr>"
  by code_simp

lemma clipped_crop:
  "crop \<lparr>shape = [3, 3], dtype = Int64, data = map real [0..<9]\<rparr> [2, 4] [2, 2]
     = Inr \<lparr>shape = [1, 0], dtype = Int64, data = []\<rparr>"
  by code_simp

lemma task1_run:
  "fst (create_patches id \<lparr>draws = Suc, cursor = 0\<rparr> task1_array task1_array [2, 2])
     = Inr (\<lparr>shape = [7, 2, 2], dtype = Float32,
             data = [7, 8, 12, 13, 15, 16, 20, 21, 7, 8, 12, 13, 15, 16, 20, 21,
                     7, 8, 12, 13, 15, 16, 20, 21, 7, 8, 12, 13]\<rparr>,
            \<lparr>shape = [7, 2, 2], dtype = Float32,
             data = [7, 8, 12, 13, 15, 16, 20, 21, 7, 8, 12, 13, 15, 16, 20, 21,
                     7, 8, 12, 13, 15, 16, 20, 21, 7, 8, 12, 13]\<rparr>)"
  by code_simp

section \<open>The properties of the specification\<close>

text \<open>
  C1. Whenever \<open>create_patches\<close> returns, its two stacks have the same length, and there is
  one extraction event per output index: a sample index and a vector of offsets, such
  that the noisy patch and the target patch at that output index are the crops of that
  one sample of the image stack and of the target stack at these same offsets, cast to
  32-bit floats. In particular, when the two input stacks have the same shape and,
  value by value, the same data, the two output stacks are equal, so every pair
  satisfies \<open>patch == target\<close>.
\<close>

theorem create_patches_paired:
  assumes run: "create_patches f32 g image_array target_array ps = (Inr (ips, tps), g')"
  shows "(\<exists>evs. shape ips = length evs # tl (shape ips) \<and> shape tps = length evs # tl (shape tps)
            \<and> (\<forall>i<length evs. \<exists>sample target_sample patch target_patch.
                   nd_index image_array (int (fst (evs ! i))) = Inr sample
                 \<and> nd_index target_array (int (fst (evs ! i))) = Inr target_sample
                 \<and> crop sample (snd (evs ! i)) ps = Inr patch
                 \<and> crop target_sample (snd (evs ! i)) ps = Inr target_patch
                 \<and> nd_index ips (int i) = Inr (astype f32 Float32 patch)
                 \<and> nd_index tps (int i) = Inr (astype f32 Float32 target_patch)))
       \<and> (shape target_array = shape image_array \<and> data target_array = data image_array
            \<longrightarrow> ips = tps)"
proof -
  from create_patches_Inr[OF run] obtain S shp evs where
    img: "shape image_array = S # shp"
    and evs: "\<forall>ev\<in>set evs. fst ev < S \<and> in_bounds (snd ev) shp ps
                  \<and> shape target_array \<noteq> [] \<and> fst ev < hd (shape target_array)
                  \<and> length (snd ev) \<le> length (tl (shape target_array))"
    and s1: "np_stack (map (patch_at f32 image_array ps) evs) = Inr ips"
    and s2: "np_stack (map (patch_at f32 target_array ps) evs) = Inr tps"
    by blast
  have wf1: "\<forall>x\<in>set (map (patch_at f32 image_array ps) evs). wf_array x \<and> dtype x = Float32"
    by (simp add: patch_at_def wf_cut dtype_cut)
  have wf2: "\<forall>x\<in>set (map (patch_at f32 target_array ps) evs). wf_array x \<and> dtype x = Float32"
    by (simp add: patch_at_def wf_cut dtype_cut)
  have pairs: "\<forall>i<length evs. \<exists>sample target_sample patch target_patch.
                   nd_index image_array (int (fst (evs ! i))) = Inr sample
                 \<and> nd_index target_array (int (fst (evs ! i))) = Inr target_sample
                 \<and> crop sample (snd (evs ! i)) ps = Inr patch
                 \<and> crop target_sample (snd (evs ! i)) ps = Inr target_patch
                 \<and> nd_index ips (int i) = Inr (astype f32 Float32 patch)
                 \<and> nd_index tps (int i) = Inr (astype f32 Float32 target_patch)"
  proof (intro allI impI)
    fix i assume i: "i < length evs"
    define s where "s = fst (evs ! i)"
    define cs where "cs = snd (evs ! i)"
    from i have "evs ! i \<in> set evs" by simp
    with evs have e: "s < S" "in_bounds cs shp ps" "shape target_array \<noteq> []"
      "s < hd (shape target_array)" "length cs \<le> length (tl (shape target_array))"
      unfolding s_def cs_def by blast+
    have a1: "nd_index image_array (int s) = Inr (sample_at image_array s)"
      using img e(1) by (rule nd_index_in_range)
    from e(3) obtain T tshp where tgt: "shape target_array = T # tshp"
      by (cases "shape target_array") auto
    with e(4) have "s < T" by simp
    with tgt have a2: "nd_index target_array (int s) = Inr (sample_at target_array s)"
      by (rule nd_index_in_range)
    from in_bounds_lengths[OF e(2)] have "length cs \<le> length (shape (sample_at image_array s))"
      by (simp add: shape_sample_at img)
    then have a3: "crop (sample_at image_array s) cs ps = Inr (crop_arr (sample_at image_array s) cs ps)"
      by (simp add: crop_def)
    from e(5) have "length cs \<le> length (shape (sample_at target_array s))"
      by (simp add: shape_sample_at)
    then have a4: "crop (sample_at target_array s) cs ps = Inr (crop_arr (sample_at target_array s) cs ps)"
      by (simp add: crop_def)
    have "nd_index ips (int i) = Inr (map (patch_at f32 image_array ps) evs ! i)"
      using s1 _ wf1 by (rule nd_index_stack) (simp add: i)
    then have a5: "nd_index ips (int i)
                    = Inr (astype f32 Float32 (crop_arr (sample_at image_array s) cs ps))"
      using i by (simp add: patch_at_def cut_def s_def cs_def)
    have "nd_index tps (int i) = Inr (map (patch_at f32 target_array ps) evs ! i)"
      using s2 _ wf2 by (rule nd_index_stack) (simp add: i)
    then have a6: "nd_index tps (int i)
                    = Inr (astype f32 Float32 (crop_arr (sample_at target_array s) cs ps))"
      using i by (simp add: patch_at_def cut_def s_def cs_def)
    from a1 a2 a3 a4 a5 a6
    show "\<exists>sample target_sample patch target_patch.
                   nd_index image_array (int (fst (evs ! i))) = Inr sample
                 \<and> nd_index target_array (int (fst (evs ! i))) = Inr target_sample
                 \<and> crop sample (snd (evs ! i)) ps = Inr patch
                 \<and> crop target_sample (snd (evs ! i)) ps = Inr target_patch
                 \<and> nd_index ips (int i) = Inr (astype f32 Float32 patch)
                 \<and> nd_index tps (int i) = Inr (astype f32 Float32 target_patch)"
      unfolding s_def[symmetric] cs_def[symmetric] by blast
  qed
  have l1: "shape ips = length evs # tl (shape ips)"
    using np_stack_Inr(3)[OF s1] by simp
  have l2: "shape tps = length evs # tl (shape tps)"
    using np_stack_Inr(3)[OF s2] by simp
  have same: "ips = tps" if "shape target_array = shape image_array \<and> data target_array = data image_array"
  proof -
    from that have "patch_at f32 target_array ps = patch_at f32 image_array ps"
      by (intro ext patch_at_cong) simp_all
    with s1 s2 show ?thesis by simp
  qed
  from l1 l2 pairs same show ?thesis by blast
qed

theorem create_patches_paired_witness:
  "\<exists>ips tps g'. create_patches id \<lparr>draws = Suc, cursor = 0\<rparr> task1_array task1_array [2, 2]
        = (Inr (ips, tps), g')
     \<and> ips = tps \<and> shape ips = [7, 2, 2]"
proof -
  from create_patches_fits[OF task1_shape task1_shape _ fits_2_5, of id "\<lparr>draws = Suc, cursor = 0\<rparr>"]
  obtain ips tps g' where
    run: "create_patches id \<lparr>draws = Suc, cursor = 0\<rparr> task1_array task1_array [2, 2]
            = (Inr (ips, tps), g')"
    and sh: "shape ips = (1 * count_for task1_array [2, 2]) # [2, 2]" by auto
  have "count_for task1_array [2, 2] = 7"
    by (simp add: count_for_def task1_array_def)
  with sh have "shape ips = [7, 2, 2]" by simp
  moreover from create_patches_paired[OF run] have "ips = tps" by simp
  ultimately show ?thesis using run by blast
qed

text \<open>
  C2. For every stack with at least one sample and every valid patch size (as many
  positive entries as the samples have axes, none larger than its axis), with a target
  stack of the same shape, \<open>create_patches\<close> returns; the patch count it computes for each
  sample is the ceiling of the sample's volume over the patch's volume, and the number
  of pairs returned, which \<open>__len__\<close> reports for a dataset built from them, is the sum of
  this count over the samples.
\<close>

theorem create_patches_count:
  assumes img: "shape image_array = S # shp" and tgt: "shape target_array = S # shp"
    and S: "0 < S" and fits: "fits ps shp"
  shows "\<exists>ips tps g'. create_patches f32 g image_array target_array ps = (Inr (ips, tps), g')
           \<and> (\<forall>s<S. \<exists>sample. nd_index image_array (int s) = Inr sample
                  \<and> n_patches (shape sample) ps
                      = Inr (nat \<lceil>real (prod_list (shape sample)) / real (prod_list ps)\<rceil>))
           \<and> CAREDataset_len (CAREDataset_init ips tps apply_augmentations)
               = Inr (\<Sum>s\<leftarrow>[0..<S]. nat \<lceil>real (prod_list shp) / real (prod_list ps)\<rceil>)
           \<and> hd (shape tps) = (\<Sum>s\<leftarrow>[0..<S]. nat \<lceil>real (prod_list shp) / real (prod_list ps)\<rceil>)"
proof -
  from create_patches_fits[OF img tgt S fits, of f32 g] obtain ips tps g' where
    run: "create_patches f32 g image_array target_array ps = (Inr (ips, tps), g')"
    and s1: "shape ips = (S * count_for image_array ps) # ps"
    and s2: "shape tps = (S * count_for image_array ps) # ps" by blast
  have c: "count_for image_array ps = nat \<lceil>real (prod_list shp) / real (prod_list ps)\<rceil>"
    by (simp add: count_for_def img)
  have total: "(\<Sum>s\<leftarrow>[0..<S]. nat \<lceil>real (prod_list shp) / real (prod_list ps)\<rceil>)
                 = S * count_for image_array ps"
    by (simp add: c sum_list_triv)
  from fits_prod[OF fits] have pos: "prod_list ps \<noteq> 0" by simp
  have per: "\<forall>s<S. \<exists>sample. nd_index image_array (int s) = Inr sample
                  \<and> n_patches (shape sample) ps
                      = Inr (nat \<lceil>real (prod_list (shape sample)) / real (prod_list ps)\<rceil>)"
  proof (intro allI impI)
    fix s assume "s < S"
    with img have "nd_index image_array (int s) = Inr (sample_at image_array s)"
      by (rule nd_index_in_range)
    moreover have "n_patches (shape (sample_at image_array s)) ps
        = Inr (nat \<lceil>real (prod_list (shape (sample_at image_array s))) / real (prod_list ps)\<rceil>)"
      using pos by (simp add: n_patches_def)
    ultimately show "\<exists>sample. nd_index image_array (int s) = Inr sample
                  \<and> n_patches (shape sample) ps
                      = Inr (nat \<lceil>real (prod_list (shape sample)) / real (prod_list ps)\<rceil>)"
      by blast
  qed
  have "CAREDataset_len (CAREDataset_init ips tps apply_augmentations)
          = Inr (\<Sum>s\<leftarrow>[0..<S]. nat \<lceil>real (prod_list shp) / real (prod_list ps)\<rceil>)"
    unfolding total by (simp add: CAREDataset_len_def CAREDataset_init_def s1)
  moreover have "hd (shape tps) = (\<Sum>s\<leftarrow>[0..<S]. nat \<lceil>real (prod_list shp) / real (prod_list ps)\<rceil>)"
    unfolding total by (simp add: s2)
  ultimately show ?thesis using run per by blast
qed

theorem create_patches_count_witness:
  "\<exists>ips tps g'. create_patches id \<lparr>draws = Suc, cursor = 0\<rparr> task1_array task1_array [2, 2]
        = (Inr (ips, tps), g')
     \<and> CAREDataset_len (CAREDataset_init ips tps False) = Inr 7 \<and> hd (shape tps) = 7"
proof -
  have c: "(\<Sum>s\<leftarrow>[0..<1]. nat \<lceil>real (prod_list [5, 5]) / real (prod_list [2, 2])\<rceil>) = 7"
    by simp
  have s: "0 < (1::nat)" by simp
  from create_patches_count[OF task1_shape task1_shape s fits_2_5,
      of id "\<lparr>draws = Suc, cursor = 0\<rparr>" False]
  show ?thesis unfolding c by blast
qed

text \<open>
  C3. Every time the loop body of \<open>create_patches\<close> extracts a pair, the offset it has
  drawn on each axis lies in the closed interval \<open>[0, dimSize - patchSize]\<close> of that axis,
  so that the patch fits inside the sample: for a sample with as many axes as the patch
  size the crop has exactly the shape \<open>patchSize\<close>; on an axis with
  \<open>dimSize = patchSize\<close> the offset is 0. The upper bound is inclusive: every vector of
  offsets within these bounds is drawn for some state of the generator. For a sample of
  shape \<open>(5, 5)\<close> and the patch size \<open>(2, 2)\<close> the offsets lie in \<open>{0, 1, 2, 3}\<close>, and
  \<open>(3, 3)\<close> is drawn (the witness).
\<close>

theorem offsets_in_range:
  "(extract_pair f32 g sample target_sample ps acc = (Inr acc', g') \<longrightarrow>
      (\<exists>cs. crop_coords g (shape sample) ps = (Inr cs, g') \<and> length cs = length ps
           \<and> (\<forall>i<length ps. ps ! i \<le> shape sample ! i \<and> cs ! i \<le> shape sample ! i - ps ! i
                  \<and> (shape sample ! i = ps ! i \<longrightarrow> cs ! i = 0))
           \<and> image_patches acc' = image_patches acc @ [astype f32 Float32 (crop_arr sample cs ps)]
           \<and> target_patches acc'
               = target_patches acc @ [astype f32 Float32 (crop_arr target_sample cs ps)]
           \<and> (length (shape sample) = length ps \<longrightarrow> shape (crop_arr sample cs ps) = ps)))
   \<and> (in_bounds cs' (shape sample) ps \<longrightarrow>
        (\<exists>g''. fst (crop_coords g'' (shape sample) ps) = Inr cs'))"
proof (intro conjI impI)
  assume run: "extract_pair f32 g sample target_sample ps acc = (Inr acc', g')"
  show "\<exists>cs. crop_coords g (shape sample) ps = (Inr cs, g') \<and> length cs = length ps
           \<and> (\<forall>i<length ps. ps ! i \<le> shape sample ! i \<and> cs ! i \<le> shape sample ! i - ps ! i
                  \<and> (shape sample ! i = ps ! i \<longrightarrow> cs ! i = 0))
           \<and> image_patches acc' = image_patches acc @ [astype f32 Float32 (crop_arr sample cs ps)]
           \<and> target_patches acc'
               = target_patches acc @ [astype f32 Float32 (crop_arr target_sample cs ps)]
           \<and> (length (shape sample) = length ps \<longrightarrow> shape (crop_arr sample cs ps) = ps)"
  proof -
    from extract_pair_Inr[OF run] obtain cs where
      cc: "crop_coords g (shape sample) ps = (Inr cs, g')"
      and b: "in_bounds cs (shape sample) ps"
      and p1: "image_patches acc' = image_patches acc @ [cut f32 sample cs ps]"
      and p2: "target_patches acc' = target_patches acc @ [cut f32 target_sample cs ps]"
      by blast
    have len: "length cs = length ps" using in_bounds_lengths[OF b] by simp
    have rng: "\<forall>i<length ps. ps ! i \<le> shape sample ! i \<and> cs ! i \<le> shape sample ! i - ps ! i
                    \<and> (shape sample ! i = ps ! i \<longrightarrow> cs ! i = 0)"
    proof (intro allI impI)
      fix i assume "i < length ps"
      from in_bounds_nth[OF b this] have "cs ! i + ps ! i \<le> shape sample ! i" .
      then show "ps ! i \<le> shape sample ! i \<and> cs ! i \<le> shape sample ! i - ps ! i
                    \<and> (shape sample ! i = ps ! i \<longrightarrow> cs ! i = 0)" by auto
    qed
    have fit: "length (shape sample) = length ps \<longrightarrow> shape (crop_arr sample cs ps) = ps"
      using shape_crop_arr[OF b] by simp
    from cc len rng p1 p2 fit show ?thesis unfolding cut_def by blast
  qed
next
  assume b: "in_bounds cs' (shape sample) ps"
  have "\<forall>i<length cs'. draws \<lparr>draws = (!) cs', cursor = 0\<rparr> (cursor \<lparr>draws = (!) cs', cursor = 0\<rparr> + i) = cs' ! i"
    by simp
  from crop_coords_reaches[OF b this]
  show "\<exists>g''. fst (crop_coords g'' (shape sample) ps) = Inr cs'"
    by (intro exI[of _ "\<lparr>draws = (!) cs', cursor = 0\<rparr>"]) simp
qed

theorem offsets_in_range_witness:
  "(\<exists>acc' g' cs.
      extract_pair id \<lparr>draws = Suc, cursor = 0\<rparr>
          \<lparr>shape = [5, 5], dtype = Int64, data = map real [0..<25]\<rparr>
          \<lparr>shape = [5, 5], dtype = Int64, data = map real [0..<25]\<rparr> [2, 2]
          \<lparr>image_patches = [], target_patches = []\<rparr> = (Inr acc', g')
    \<and> crop_coords \<lparr>draws = Suc, cursor = 0\<rparr> [5, 5] [2, 2] = (Inr cs, g')
    \<and> cs ! 0 \<le> 3 \<and> cs ! 1 \<le> 3
    \<and> shape (crop_arr \<lparr>shape = [5, 5], dtype = Int64, data = map real [0..<25]\<rparr> cs [2, 2])
        = [2, 2])
   \<and> (\<exists>g''. fst (crop_coords g'' [5, 5] [2, 2]) = Inr [3, 3])"
proof -
  let ?s = "\<lparr>shape = [5, 5], dtype = Int64, data = map real [0..<25]\<rparr>"
  let ?g = "\<lparr>draws = Suc, cursor = 0\<rparr>"
  let ?e = "\<lparr>image_patches = [], target_patches = []\<rparr>"
  have f: "fits [2, 2] (shape ?s)" by (simp add: fits_def)
  have l: "length [2, 2::nat] \<le> length (shape ?s)" by simp
  from extract_pair_fits[OF f l, of id ?g ?e] obtain acc' where
    run: "extract_pair id ?g ?s ?s [2, 2] ?e = (Inr acc', ?g\<lparr>cursor := cursor ?g + length [2, 2::nat]\<rparr>)"
    by blast
  note t = offsets_in_range[where sample = ?s and ps = "[2, 2]" and cs' = "[3, 3]"]
  from t[THEN conjunct1, rule_format, OF run] obtain cs where
    cs: "crop_coords ?g (shape ?s) [2, 2] = (Inr cs, ?g\<lparr>cursor := cursor ?g + length [2, 2::nat]\<rparr>)"
      "\<forall>i<length [2, 2::nat]. [2, 2] ! i \<le> shape ?s ! i \<and> cs ! i \<le> shape ?s ! i - [2, 2] ! i
                  \<and> (shape ?s ! i = [2, 2] ! i \<longrightarrow> cs ! i = 0)"
      "length (shape ?s) = length [2, 2::nat] \<longrightarrow> shape (crop_arr ?s cs [2, 2]) = [2, 2]"
    by blast
  from cs(2) have "cs ! 0 \<le> 3" "cs ! 1 \<le> 3" by auto
  moreover from cs(3) have "shape (crop_arr ?s cs [2, 2]) = [2, 2]" by simp
  moreover from cs(1) have "crop_coords ?g [5, 5] [2, 2] = (Inr cs, ?g\<lparr>cursor := cursor ?g + length [2, 2::nat]\<rparr>)"
    by simp
  moreover have b: "in_bounds [3, 3] (shape ?s) [2, 2]" by simp
  from t[THEN conjunct2, rule_format, OF b]
  have "\<exists>g''. fst (crop_coords g'' (shape ?s) [2, 2]) = Inr [3, 3]" .
  then have "\<exists>g''. fst (crop_coords g'' [5, 5] [2, 2]) = Inr [3, 3]" by simp
  ultimately show ?thesis using run by blast
qed

text \<open>
  C4. The claim as stated, that extraction fails with InvalidPatchSize before any
  sampling is attempted, does not hold: for the sample of shape \<open>(5, 5)\<close> and the patch
  size \<open>(2, 6)\<close> the run ends in the ValueError of \<^verbatim>\<open>rng.integers\<close>, after one offset has
  been drawn.
\<close>

theorem invalid_patch_size_counterexample:
  "create_patches id \<lparr>draws = Suc, cursor = 0\<rparr> task1_array task1_array [2, 6]
     = (Inl (ValueError LowGtHigh), \<lparr>draws = Suc, cursor = 1\<rparr>)"
proof -
  have "create_patches id \<lparr>draws = Suc, cursor = 0\<rparr> task1_array task1_array [2, 6]
     = (Inl (ValueError LowGtHigh),
        \<lparr>draws = Suc, cursor = 0\<rparr>\<lparr>cursor := cursor \<lparr>draws = Suc, cursor = 0\<rparr> + 1\<rparr>)"
    by (rule create_patches_fails_at[OF task1_shape _ task1_shape]) simp_all
  then show ?thesis by simp
qed

text \<open>
  C4, as amended. \<open>create_patches\<close> has no check of the patch size. When both stacks have
  a sample, the sample and the patch have a volume that is not zero and is below \<open>2^63\<close>
  (so that numpy's int64 products do not wrap around and the patch count is positive),
  and \<open>j\<close> is the first axis on which the patch is larger than the sample, the call fails
  with the ValueError that \<^verbatim>\<open>rng.integers\<close> raises for an empty interval, at the first
  patch of the first sample, after the offsets of the \<open>j\<close> axes before have been drawn.
\<close>

theorem create_patches_too_large:
  assumes "shape image_array = S # shp" and "0 < S"
    and "shape target_array = T # tshp" and "0 < T"
    and "0 < prod_list shp" and "prod_list shp < 2 ^ 63"
    and "0 < prod_list ps" and "prod_list ps < 2 ^ 63"
    and "j < length ps" and "j < length shp" and "shp ! j < ps ! j"
    and "\<forall>i<j. ps ! i \<le> shp ! i"
  shows "create_patches f32 g image_array target_array ps
           = (Inl (ValueError LowGtHigh), g\<lparr>cursor := cursor g + j\<rparr>)"
  using assms(1-5,7,9-12) by (rule create_patches_fails_at)

theorem create_patches_too_large_witness:
  "create_patches id \<lparr>draws = Suc, cursor = 0\<rparr> task1_array task1_array [2, 6]
     = (Inl (ValueError LowGtHigh), \<lparr>draws = Suc, cursor = 1\<rparr>)"
proof -
  have "create_patches id \<lparr>draws = Suc, cursor = 0\<rparr> task1_array task1_array [2, 6]
     = (Inl (ValueError LowGtHigh),
        \<lparr>draws = Suc, cursor = 0\<rparr>\<lparr>cursor := cursor \<lparr>draws = Suc, cursor = 0\<rparr> + 1\<rparr>)"
    by (rule create_patches_too_large[OF task1_shape _ task1_shape]) simp_all
  then show ?thesis by simp
qed

text \<open>
  C5. With augmentation disabled, \<open>__getitem__\<close> is deterministic: its result does not
  depend on the random generator (nor on the augmentation function), it leaves the
  generator untouched, and for an index in range it is the stored pair at that index,
  normalized, with a leading axis and cast to 32-bit floats. So two calls with the same
  index on the same dataset return equal results.
\<close>

theorem getitem_deterministic:
  assumes "\<not> patch_augment ds"
  shows "CAREDataset_getitem augment_batch f32 st ds g index
           = (fst (CAREDataset_getitem augment_batch' f32 st ds g' index), g)
         \<and> (nd_index (image_data ds) index = Inr patch
              \<and> nd_index (target_data ds) index = Inr target
              \<and> normalize patch (train_mean st) (train_std st) = Inr p
              \<and> normalize target (target_mean st) (target_std st) = Inr t
            \<longrightarrow> fst (CAREDataset_getitem augment_batch f32 st ds g index)
                  = Inr (astype f32 Float32 (newaxis p), astype f32 Float32 (newaxis t)))"
  by (simp add: getitem_plain[OF assms])

theorem getitem_deterministic_witness:
  "CAREDataset_getitem (\<lambda>g p t. (Inl IndexError, g)) id example_stats two_patches
       \<lparr>draws = Suc, cursor = 0\<rparr> 1
     = (fst (CAREDataset_getitem (\<lambda>g p t. (Inr (t, p), g)) id example_stats two_patches
               \<lparr>draws = id, cursor = 5\<rparr> 1), \<lparr>draws = Suc, cursor = 0\<rparr>)
   \<and> fst (CAREDataset_getitem (\<lambda>g p t. (Inl IndexError, g)) id example_stats two_patches
            \<lparr>draws = Suc, cursor = 0\<rparr> 1)
       = Inr (astype id Float32 (newaxis \<lparr>shape = [1, 1], dtype = Float64, data = [1 / 2]\<rparr>),
              astype id Float32 (newaxis \<lparr>shape = [1, 1], dtype = Float64, data = [1]\<rparr>))"
proof -
  have h: "\<not> patch_augment two_patches"
    by (simp add: two_patches_def CAREDataset_init_def)
  have a: "nd_index (image_data two_patches) 1
             = Inr \<lparr>shape = [1, 1], dtype = Float32, data = [2]\<rparr>
         \<and> nd_index (target_data two_patches) 1
             = Inr \<lparr>shape = [1, 1], dtype = Float32, data = [4]\<rparr>
         \<and> normalize \<lparr>shape = [1, 1], dtype = Float32, data = [2]\<rparr>
               (train_mean example_stats) (train_std example_stats)
             = Inr \<lparr>shape = [1, 1], dtype = Float64, data = [1 / 2]\<rparr>
         \<and> normalize \<lparr>shape = [1, 1], dtype = Float32, data = [4]\<rparr>
               (target_mean example_stats) (target_std example_stats)
             = Inr \<lparr>shape = [1, 1], dtype = Float64, data = [1]\<rparr>"
    by (simp add: two_patches_def CAREDataset_init_def example_stats_def nd_index_def
        sample_at_def normalize_def result_type_def)
  note t = getitem_deterministic[OF h, where st = example_stats and index = 1
      and augment_batch = "\<lambda>g p t. (Inl IndexError, g)"
      and augment_batch' = "\<lambda>g p t. (Inr (t, p), g)"
      and g = "\<lparr>draws = Suc, cursor = 0\<rparr>" and g' = "\<lparr>draws = id, cursor = 5\<rparr>"]
  from t[THEN conjunct1] t[THEN conjunct2, rule_format, OF a]
  show ?thesis by (rule conjI)
qed

text \<open>
  C6. The claim as stated, that the items have the shape \<open>(1, *patchSize)\<close> regardless of
  the rank of the input arrays, does not hold: \<open>create_patches\<close> slices the last axes and
  keeps the axes before them, so for the stack of shape \<open>(1, 2, 2, 2)\<close> and the patch size
  \<open>(2, 2)\<close> it returns stacks of shape \<open>(2, 2, 2, 2)\<close>, and \<open>__getitem__(0)\<close> of the dataset
  built from them returns arrays of shape \<open>(1, 2, 2, 2)\<close>, not \<open>(1, 2, 2)\<close>.
\<close>

theorem patch_shape_counterexample:
  "fst (create_patches id \<lparr>draws = Suc, cursor = 0\<rparr> channel_stack channel_stack [2, 2])
     = Inr (\<lparr>shape = [2, 2, 2, 2], dtype = Float32,
             data = [0, 1, 2, 3, 4, 5, 6, 7, 0, 1, 2, 3, 4, 5, 6, 7]\<rparr>,
            \<lparr>shape = [2, 2, 2, 2], dtype = Float32,
             data = [0, 1, 2, 3, 4, 5, 6, 7, 0, 1, 2, 3, 4, 5, 6, 7]\<rparr>)
   \<and> fst (CAREDataset_getitem (\<lambda>g p t. (Inl IndexError, g)) id example_stats
            (CAREDataset_init
               \<lparr>shape = [2, 2, 2, 2], dtype = Float32,
                data = [0, 1, 2, 3, 4, 5, 6, 7, 0, 1, 2, 3, 4, 5, 6, 7]\<rparr>
               \<lparr>shape = [2, 2, 2, 2], dtype = Float32,
                data = [0, 1, 2, 3, 4, 5, 6, 7, 0, 1, 2, 3, 4, 5, 6, 7]\<rparr> False)
            \<lparr>draws = Suc, cursor = 0\<rparr> 0)
     = Inr (\<lparr>shape = [1, 2, 2, 2], dtype = Float32,
             data = [- 1 / 2, 0, 1 / 2, 1, 3 / 2, 2, 5 / 2, 3]\<rparr>,
            \<lparr>shape = [1, 2, 2, 2], dtype = Float32,
             data = [- 3, - 2, - 1, 0, 1, 2, 3, 4]\<rparr>)"
proof (rule conjI)
  show "fst (create_patches id \<lparr>draws = Suc, cursor = 0\<rparr> channel_stack channel_stack [2, 2])
     = Inr (\<lparr>shape = [2, 2, 2, 2], dtype = Float32,
             data = [0, 1, 2, 3, 4, 5, 6, 7, 0, 1, 2, 3, 4, 5, 6, 7]\<rparr>,
            \<lparr>shape = [2, 2, 2, 2], dtype = Float32,
             data = [0, 1, 2, 3, 4, 5, 6, 7, 0, 1, 2, 3, 4, 5, 6, 7]\<rparr>)"
    by code_simp
  show "fst (CAREDataset_getitem (\<lambda>g p t. (Inl IndexError, g)) id example_stats
            (CAREDataset_init
               \<lparr>shape = [2, 2, 2, 2], dtype = Float32,
                data = [0, 1, 2, 3, 4, 5, 6, 7, 0, 1, 2, 3, 4, 5, 6, 7]\<rparr>
               \<lparr>shape = [2, 2, 2, 2], dtype = Float32,
                data = [0, 1, 2, 3, 4, 5, 6, 7, 0, 1, 2, 3, 4, 5, 6, 7]\<rparr> False)
            \<lparr>draws = Suc, cursor = 0\<rparr> 0)
     = Inr (\<lparr>shape = [1, 2, 2, 2], dtype = Float32,
             data = [- 1 / 2, 0, 1 / 2, 1, 3 / 2, 2, 5 / 2, 3]\<rparr>,
            \<lparr>shape = [1, 2, 2, 2], dtype = Float32,
             data = [- 3, - 2, - 1, 0, 1, 2, 3, 4]\<rparr>)"
    by (simp add: CAREDataset_getitem_def CAREDataset_init_def example_stats_def
        nd_index_def sample_at_def normalize_def astype_def newaxis_def result_type_def)
qed

text \<open>
  C6, as amended. For a dataset built from what \<open>create_patches\<close> returns, and for every
  index in \<open>[0, length())\<close>, \<open>__getitem__\<close> returns (the standard deviations being non-zero,
  and the augmentation, when enabled, preserving shapes) two arrays of dtype float32,
  each of the shape of the stored entries with a leading axis of size 1:
  \<open>(1, *image_data.shape[1:])\<close> and \<open>(1, *target_data.shape[1:])\<close>. This is
  \<open>(1, *patchSize)\<close> when the input stacks have equal shapes and one axis before the
  patched ones, that is the rank \<open>1 + len(patchSize)\<close>, whatever the number of patched
  axes is.
\<close>

theorem getitem_shape_dtype:
  assumes run: "create_patches f32 g0 image_array target_array ps = (Inr (ips, tps), g1)"
    and len: "CAREDataset_len (CAREDataset_init ips tps apply_augmentations) = Inr n"
    and idx: "0 \<le> index" "index < int n"
    and std: "train_std st \<noteq> 0" "target_std st \<noteq> 0"
    and aug: "apply_augmentations \<longrightarrow>
                (\<forall>g p t. \<exists>p' t' g'. augment_batch g p t = (Inr (p', t'), g')
                    \<and> shape p' = shape p \<and> shape t' = shape t)"
  shows "\<exists>p t g'. CAREDataset_getitem augment_batch f32 st
                     (CAREDataset_init ips tps apply_augmentations) g index = (Inr (p, t), g')
           \<and> shape p = 1 # tl (shape ips) \<and> dtype p = Float32
           \<and> shape t = 1 # tl (shape tps) \<and> dtype t = Float32
           \<and> (length (shape image_array) = Suc (length ps)
                  \<and> shape target_array = shape image_array
                \<longrightarrow> shape p = 1 # ps \<and> shape t = 1 # ps)"
proof -
  let ?ds = "CAREDataset_init ips tps apply_augmentations"
  from create_patches_Inr[OF run] obtain S shp evs where
    img: "shape image_array = S # shp"
    and s1: "np_stack (map (patch_at f32 image_array ps) evs) = Inr ips"
    and s2: "np_stack (map (patch_at f32 target_array ps) evs) = Inr tps"
    by blast
  have sh1: "shape ips = length evs # tl (shape ips)" using np_stack_Inr(3)[OF s1] by simp
  have sh2: "shape tps = length evs # tl (shape tps)" using np_stack_Inr(3)[OF s2] by simp
  from len sh1 have n: "n = length evs"
    by (simp add: CAREDataset_len_def CAREDataset_init_def split: list.splits)
  have d1: "shape (image_data ?ds) = n # tl (shape ips)"
    using sh1 n by (simp add: CAREDataset_init_def)
  have d2: "shape (target_data ?ds) = n # tl (shape tps)"
    using sh2 n by (simp add: CAREDataset_init_def)
  have d3: "patch_augment ?ds \<longrightarrow>
                (\<forall>g p t. \<exists>p' t' g'. augment_batch g p t = (Inr (p', t'), g')
                    \<and> shape p' = shape p \<and> shape t' = shape t)"
    using aug by (simp add: CAREDataset_init_def)
  from getitem_shape[OF d1 d2 idx std d3, of f32 g] obtain p t g' where
    r: "CAREDataset_getitem augment_batch f32 st ?ds g index = (Inr (p, t), g')"
    and p: "shape p = 1 # tl (shape ips)" "dtype p = Float32"
    and t: "shape t = 1 # tl (shape tps)" "dtype t = Float32"
    by blast
  have "shape p = 1 # ps \<and> shape t = 1 # ps"
    if a: "length (shape image_array) = Suc (length ps) \<and> shape target_array = shape image_array"
  proof -
    from a img have rank: "length shp = length ps" and tgt: "tl (shape target_array) = shp"
      by simp_all
    from create_patches_shape[OF run img tgt rank] p(1) t(1) show ?thesis by simp
  qed
  with r p t show ?thesis by blast
qed

theorem getitem_shape_dtype_witness:
  "\<exists>ips tps g1. create_patches id \<lparr>draws = Suc, cursor = 0\<rparr> task1_array task1_array [2, 2]
        = (Inr (ips, tps), g1)
     \<and> CAREDataset_len (CAREDataset_init ips tps True) = Inr 7
     \<and> (\<exists>p t g'. CAREDataset_getitem (\<lambda>g p t. (Inr (p, t), g\<lparr>cursor := Suc (cursor g)\<rparr>))
                      id example_stats (CAREDataset_init ips tps True)
                      \<lparr>draws = Suc, cursor = 0\<rparr> 6 = (Inr (p, t), g')
           \<and> shape p = 1 # [2, 2] \<and> dtype p = Float32
           \<and> shape t = 1 # [2, 2] \<and> dtype t = Float32)"
proof -
  have s: "0 < (1::nat)" by simp
  from create_patches_fits[OF task1_shape task1_shape s fits_2_5,
      of id "\<lparr>draws = Suc, cursor = 0\<rparr>"]
  obtain ips tps g1 where
    run: "create_patches id \<lparr>draws = Suc, cursor = 0\<rparr> task1_array task1_array [2, 2]
            = (Inr (ips, tps), g1)"
    and sh: "shape ips = (1 * count_for task1_array [2, 2]) # [2, 2]"
    by blast
  have "count_for task1_array [2, 2] = 7"
    by (simp add: count_for_def task1_array_def)
  with sh have len: "CAREDataset_len (CAREDataset_init ips tps True) = Inr 7"
    by (simp add: CAREDataset_len_def CAREDataset_init_def)
  have idx: "(0::int) \<le> 6" "(6::int) < int 7" by simp_all
  have std: "train_std example_stats \<noteq> 0" "target_std example_stats \<noteq> 0"
    by (simp_all add: example_stats_def)
  have aug: "True \<longrightarrow> (\<forall>g p t. \<exists>p' t' g'.
        (\<lambda>g p t. (Inr (p, t), g\<lparr>cursor := Suc (cursor g)\<rparr>)) g p t = (Inr (p', t'), g')
          \<and> shape p' = shape p \<and> shape t' = shape t)"
    by simp
  have rank: "length (shape task1_array) = Suc (length [2, 2::nat])
                \<and> shape task1_array = shape task1_array"
    by (simp add: task1_shape)
  from getitem_shape_dtype[OF run len idx std aug, of "\<lparr>draws = Suc, cursor = 0\<rparr>"] rank
  obtain p t g' where
    "CAREDataset_getitem (\<lambda>g p t. (Inr (p, t), g\<lparr>cursor := Suc (cursor g)\<rparr>))
        id example_stats (CAREDataset_init ips tps True)
        \<lparr>draws = Suc, cursor = 0\<rparr> 6 = (Inr (p, t), g')"
    "shape p = 1 # [2, 2]" "dtype p = Float32" "shape t = 1 # [2, 2]" "dtype t = Float32"
    by blast
  with run len show ?thesis by blast
qed

text \<open>
  C7. The claim as stated, that every index outside \<open>[0, length())\<close> fails, does not
  hold for negative indices: on a dataset of two pairs, \<open>__getitem__(-1)\<close> returns the
  last pair.
\<close>

theorem negative_index_counterexample:
  "CAREDataset_len two_patches = Inr 2
   \<and> CAREDataset_getitem (\<lambda>g p t. (Inl IndexError, g)) id example_stats two_patches
        \<lparr>draws = Suc, cursor = 0\<rparr> (- 1)
     = (Inr (\<lparr>shape = [1, 1, 1], dtype = Float32, data = [1 / 2]\<rparr>,
             \<lparr>shape = [1, 1, 1], dtype = Float32, data = [1]\<rparr>),
        \<lparr>draws = Suc, cursor = 0\<rparr>)"
  by (simp add: CAREDataset_len_def CAREDataset_getitem_def two_patches_def CAREDataset_init_def
      example_stats_def nd_index_def sample_at_def normalize_def astype_def newaxis_def
      result_type_def)

text \<open>
  C7, as amended. For every index with \<open>index \<ge> length()\<close> or \<open>index < -length()\<close>,
  \<open>__getitem__\<close> fails with IndexError and returns no pair. An index in
  \<open>[-length(), 0)\<close> is accepted, as Python indexing does: the call is the call for
  \<open>index + length()\<close>.
\<close>

theorem getitem_out_of_range:
  assumes "shape (image_data ds) = n # shp"
  shows "(index < - int n \<or> int n \<le> index \<longrightarrow>
            CAREDataset_getitem augment_batch f32 st ds g index = (Inl IndexError, g))
       \<and> (shape (target_data ds) = n # tshp \<and> - int n \<le> index \<and> index < 0 \<longrightarrow>
            CAREDataset_getitem augment_batch f32 st ds g index
              = CAREDataset_getitem augment_batch f32 st ds g (index + int n))"
proof (intro conjI impI)
  assume "index < - int n \<or> int n \<le> index"
  from nd_index_out_of_range[OF assms this]
  show "CAREDataset_getitem augment_batch f32 st ds g index = (Inl IndexError, g)"
    by (simp add: CAREDataset_getitem_def)
next
  assume a: "shape (target_data ds) = n # tshp \<and> - int n \<le> index \<and> index < 0"
  then have h: "nd_index (image_data ds) index = nd_index (image_data ds) (index + int n)"
    "nd_index (target_data ds) index = nd_index (target_data ds) (index + int n)"
    using assms by (simp_all add: nd_index_negative)
  show "CAREDataset_getitem augment_batch f32 st ds g index
              = CAREDataset_getitem augment_batch f32 st ds g (index + int n)"
    unfolding CAREDataset_getitem_def h ..
qed

theorem getitem_out_of_range_witness:
  "CAREDataset_getitem (\<lambda>g p t. (Inl IndexError, g)) id example_stats two_patches
       \<lparr>draws = Suc, cursor = 0\<rparr> 2 = (Inl IndexError, \<lparr>draws = Suc, cursor = 0\<rparr>)
   \<and> CAREDataset_getitem (\<lambda>g p t. (Inl IndexError, g)) id example_stats two_patches
       \<lparr>draws = Suc, cursor = 0\<rparr> (- 1)
     = CAREDataset_getitem (\<lambda>g p t. (Inl IndexError, g)) id example_stats two_patches
       \<lparr>draws = Suc, cursor = 0\<rparr> (- 1 + int 2)"
proof -
  have o: "(2::int) < - int 2 \<or> int 2 \<le> 2" by simp
  have n: "shape (target_data two_patches) = 2 # [1, 1] \<and> - int 2 \<le> - 1 \<and> (- 1::int) < 0"
    by (simp add: two_patches_shapes)
  from getitem_out_of_range[OF two_patches_shapes(1), THEN conjunct1, rule_format, OF o]
    getitem_out_of_range[OF two_patches_shapes(1), THEN conjunct2, rule_format, OF n]
  show ?thesis by (rule conjI)
qed

text \<open>
  C8. With \<open>normalize(a, m, s) = (a - m) / s\<close> and \<open>denormalize(a, m, s) = a * s + m\<close>, for
  every array, every mean and every non-zero std, normalizing succeeds and denormalizing
  its result gives back the array: the same shape and, value by value, the same data
  (in exact arithmetic).
\<close>

theorem normalize_roundtrip:
  assumes "s \<noteq> 0"
  shows "\<exists>b. normalize a m s = Inr b
           \<and> shape (denormalize b m s) = shape a
           \<and> data (denormalize b m s) = data a"
proof -
  have "map ((\<lambda>x. x * s + m) \<circ> (\<lambda>x. (x - m) / s)) (data a) = data a"
    using assms by (intro map_idI) simp
  then show ?thesis
    using assms by (simp add: normalize_def denormalize_def)
qed

theorem normalize_roundtrip_witness:
  "(2::real) \<noteq> 0 \<and>
   (\<exists>b. normalize \<lparr>shape = [2], dtype = Float32, data = [1, 5]\<rparr> 3 2 = Inr b
      \<and> shape (denormalize b 3 2) = shape \<lparr>shape = [2], dtype = Float32, data = [1, 5]\<rparr>
      \<and> data (denormalize b 3 2) = data \<lparr>shape = [2], dtype = Float32, data = [1, 5]\<rparr>)"
proof -
  have h: "(2::real) \<noteq> 0" by simp
  from h normalize_roundtrip[OF h, of "\<lparr>shape = [2], dtype = Float32, data = [1, 5]\<rparr>" 3]
  show ?thesis by (rule conjI)
qed

text \<open>
  C10. The length of a dataset is the size of the first axis of its image stack alone:
  whatever the target stack is, also one with a different number of patches, the
  constructor stores it unchecked and \<open>__len__\<close> reports the image count.
\<close>

theorem len_is_image_count:
  assumes "shape image_arr = n # shp"
  shows "CAREDataset_len (CAREDataset_init image_arr target_arr apply_augmentations) = Inr n
         \<and> target_data (CAREDataset_init image_arr target_arr apply_augmentations) = target_arr"
  using assms by (simp add: CAREDataset_len_def CAREDataset_init_def)

theorem len_is_image_count_witness:
  "shape \<lparr>shape = [3, 1], dtype = Float32, data = [1, 2, 3]\<rparr> = 3 # [1] \<and>
   CAREDataset_len (CAREDataset_init \<lparr>shape = [3, 1], dtype = Float32, data = [1, 2, 3]\<rparr>
       \<lparr>shape = [1, 1], dtype = Float32, data = [9]\<rparr> False) = Inr 3 \<and>
   target_data (CAREDataset_init \<lparr>shape = [3, 1], dtype = Float32, data = [1, 2, 3]\<rparr>
       \<lparr>shape = [1, 1], dtype = Float32, data = [9]\<rparr> False)
     = \<lparr>shape = [1, 1], dtype = Float32, data = [9]\<rparr>"
proof -
  have h: "shape \<lparr>shape = [3, 1], dtype = Float32, data = [1, 2, 3]\<rparr> = 3 # [1]" by simp
  from len_is_image_count[OF h, of "\<lparr>shape = [1, 1], dtype = Float32, data = [9]\<rparr>" False] h
  show ?thesis by simp
qed

end
